theory Spec2Isabelle
  imports Main "HOL-Library.Sublist"
begin

section \<open>Data model\<close>

text \<open>
  The pydantic models of \<^verbatim>\<open>main.py\<close>: \<^verbatim>\<open>Observation\<close>, \<^verbatim>\<open>Entity\<close>, \<^verbatim>\<open>Relation\<close> and
  \<^verbatim>\<open>KnowledgeGraph\<close>. Every field is a \<^verbatim>\<open>str\<close>; timestamps are the strings that
  \<^verbatim>\<open>datetime.now().isoformat()\<close> returns. A \<^verbatim>\<open>str\<close> is modelled by a
  \<^typ>\<open>string\<close>, the list of its characters (the type \<^typ>\<open>char\<close> has 256 of them).
  What the library does with text (\<^verbatim>\<open>str.lower\<close>, \<^verbatim>\<open>str.strip\<close>,
  \<^verbatim>\<open>json.loads\<close>) is not code of this program: it is a parameter of the functions that
  call it.
\<close>

record observation =
  content :: string
  timestamp :: string

record entity =
  name :: string
  entityType :: string
  created_at :: string
  last_modified :: string
  observations :: "observation list"

record relation =
  rel_from :: string
  to :: string
  relationType :: string
  rel_created_at :: string

record knowledge_graph =
  entities :: "entity list"
  relations :: "relation list"

definition empty_graph :: knowledge_graph where
  "empty_graph = \<lparr>entities = [], relations = []\<rparr>"

definition triple :: "relation \<Rightarrow> string \<times> string \<times> string" where
  "triple r = (rel_from r, to r, relationType r)"

section \<open>Python values, exceptions and the clock\<close>

text \<open>
  What \<^verbatim>\<open>json.loads\<close> returns, and what a request field typed \<^verbatim>\<open>dict\<close> holds. A JSON
  object is the list of its items in insertion order (a Python dict: the keys are
  distinct). Of a number the code only ever observes whether it is zero.
\<close>

datatype json =
  JNull | JBool bool | JNum int | JStr string | JArr "json list" | JObj "(string \<times> json) list"

type_synonym dict = "(string \<times> json) list"

datatype py_error =
  AttributeError | TypeError | KeyError | ValidationError
| UnicodeDecodeError | ValueError | RecursionError | OSError
| Other_exception string

text \<open>Truth value of a Python object, as \<^verbatim>\<open>or\<close>, \<^verbatim>\<open>not\<close> and \<^verbatim>\<open>if\<close> test it.\<close>

fun truthy :: "json \<Rightarrow> bool" where
  "truthy JNull = False"
| "truthy (JBool b) = b"
| "truthy (JNum n) = (n \<noteq> 0)"
| "truthy (JStr s) = (s \<noteq> [])"
| "truthy (JArr xs) = (xs \<noteq> [])"
| "truthy (JObj d) = (d \<noteq> [])"

text \<open>\<^verbatim>\<open>d.get(k)\<close> (\<^verbatim>\<open>None\<close> when the key is absent) and \<^verbatim>\<open>d.get(k, default)\<close>.\<close>

definition dict_get :: "dict \<Rightarrow> string \<Rightarrow> json" where
  "dict_get d k = (case map_of d k of None \<Rightarrow> JNull | Some v \<Rightarrow> v)"

definition dict_get_default :: "dict \<Rightarrow> string \<Rightarrow> json \<Rightarrow> json" where
  "dict_get_default d k dflt = (case map_of d k of None \<Rightarrow> dflt | Some v \<Rightarrow> v)"

text \<open>
  \<^verbatim>\<open>for x in v\<close>: a list yields its elements, a string its characters, a dict its keys;
  anything else is not iterable.
\<close>

fun py_iter :: "json \<Rightarrow> py_error + json list" where
  "py_iter (JArr xs) = Inr xs"
| "py_iter (JStr s) = Inr (map (\<lambda>c. JStr [c]) s)"
| "py_iter (JObj d) = Inr (map (\<lambda>kv. JStr (fst kv)) d)"
| "py_iter _ = Inl TypeError"

text \<open>
  Validation of a field declared \<^verbatim>\<open>str\<close>, as pydantic 2 does it (the version whose
  \<^verbatim>\<open>model_dump_json\<close> the code calls first): only a string is accepted, and a missing
  required field is rejected too.
\<close>

fun as_str :: "json option \<Rightarrow> string option" where
  "as_str (Some (JStr s)) = Some s"
| "as_str _ = None"

text \<open>
  \<^verbatim>\<open>datetime.now().isoformat()\<close>: the clock is the sequence of its readings, and every
  call takes the next one. A function that reads the clock takes the number of readings
  made so far and returns the new number.
\<close>

type_synonym clock = "nat \<Rightarrow> string"

section \<open>Persistence: \<^verbatim>\<open>read_graph_file\<close> and \<^verbatim>\<open>save_graph\<close>\<close>

text \<open>
  The file of record: it does not exist; or opening or reading it raises (a file that is
  not UTF-8 raises \<^verbatim>\<open>UnicodeDecodeError\<close>); or \<^verbatim>\<open>f.read()\<close> returns its text.
\<close>

datatype stored_file = Missing | Unreadable py_error | Text string

text \<open>
  \<^verbatim>\<open>json.loads\<close> is library code, taken as a parameter: on a text it raises
  \<^verbatim>\<open>JSONDecodeError\<close>, or raises something that is not a \<^verbatim>\<open>JSONDecodeError\<close> (a plain
  \<^verbatim>\<open>ValueError\<close> on an integer literal beyond the digit limit, \<^verbatim>\<open>RecursionError\<close> on deep
  nesting), or returns a value.
\<close>

datatype parse_result = JSONDecodeError | Parse_raises py_error | Parsed json

text \<open>
  \<^verbatim>\<open>str.strip()\<close> drops the white space at both ends; which characters are white space
  (\<^verbatim>\<open>str.isspace\<close>) is the library's business.
\<close>

definition py_strip :: "(char \<Rightarrow> bool) \<Rightarrow> string \<Rightarrow> string" where
  "py_strip isspace s = rev (dropWhile isspace (rev (dropWhile isspace s)))"

text \<open>
  What lines 146 to 154 of \<^verbatim>\<open>read_graph_file\<close> find: the file does not exist; its text is
  empty after \<^verbatim>\<open>strip()\<close>; \<^verbatim>\<open>json.loads\<close> raises \<^verbatim>\<open>JSONDecodeError\<close> on it; the read or
  \<^verbatim>\<open>json.loads\<close> raises another exception; or \<^verbatim>\<open>json.loads\<close> returns a value.
\<close>

datatype disk = Absent | Blank | Malformed | Raises py_error | Document json

definition read_file :: "(char \<Rightarrow> bool) \<Rightarrow> (string \<Rightarrow> parse_result) \<Rightarrow> stored_file \<Rightarrow> disk" where
  "read_file isspace loads f =
     (case f of
        Missing \<Rightarrow> Absent
      | Unreadable err \<Rightarrow> Raises err
      | Text s \<Rightarrow>
          (let content = py_strip isspace s in
           if content = [] then Blank
           else (case loads content of
                   JSONDecodeError \<Rightarrow> Malformed
                 | Parse_raises err \<Rightarrow> Raises err
                 | Parsed data \<Rightarrow> Document data)))"

text \<open>\<^verbatim>\<open>Observation(**o)\<close>: \<^verbatim>\<open>o\<close> must be a mapping holding both string fields.\<close>

fun Observation_kw :: "json \<Rightarrow> py_error + observation" where
  "Observation_kw (JObj d) =
     (case (as_str (map_of d ''content''), as_str (map_of d ''timestamp'')) of
        (Some c, Some ts) \<Rightarrow> Inr \<lparr>content = c, timestamp = ts\<rparr>
      | _ \<Rightarrow> Inl ValidationError)"
| "Observation_kw _ = Inl TypeError"

text \<open>The body of the loop over an entity's stored observations (lines 164 to 168).\<close>

fun load_observation :: "json \<Rightarrow> json \<Rightarrow> py_error + observation" where
  "load_observation creation_time (JStr s) =
     (case as_str (Some creation_time) of
        Some ts \<Rightarrow> Inr \<lparr>content = s, timestamp = ts\<rparr>
      | None \<Rightarrow> Inl ValidationError)"
| "load_observation creation_time ob = Observation_kw ob"

fun load_observations :: "json \<Rightarrow> json list \<Rightarrow> py_error + observation list" where
  "load_observations creation_time [] = Inr []"
| "load_observations creation_time (ob # obs) =
     (case load_observation creation_time ob of
        Inl err \<Rightarrow> Inl err
      | Inr x \<Rightarrow>
          (case load_observations creation_time obs of
             Inl err \<Rightarrow> Inl err
           | Inr xs \<Rightarrow> Inr (x # xs)))"

text \<open>
  \<^verbatim>\<open>e.get("created_at") or e.get("last_modified") or datetime.now().isoformat()\<close>: the
  first truthy value; the clock is read only when both are falsy.
\<close>

definition creation_time_of :: "clock \<Rightarrow> nat \<Rightarrow> dict \<Rightarrow> json \<times> nat" where
  "creation_time_of clk t e =
     (if truthy (dict_get e ''created_at'') then (dict_get e ''created_at'', t)
      else if truthy (dict_get e ''last_modified'') then (dict_get e ''last_modified'', t)
      else (JStr (clk t), Suc t))"

text \<open>
  The body of the loop over the stored entities (lines 157 to 180). The default of
  \<^verbatim>\<open>e.get("last_modified", datetime.now().isoformat())\<close> is an argument, so the clock is
  read whether or not the key is present.
\<close>

fun load_entity :: "clock \<Rightarrow> nat \<Rightarrow> json \<Rightarrow> py_error + (entity \<times> nat)" where
  "load_entity clk t (JObj e) =
     (let (creation_time, t1) = creation_time_of clk t e in
      case py_iter (dict_get_default e ''observations'' (JArr [])) of
        Inl err \<Rightarrow> Inl err
      | Inr obs \<Rightarrow>
      (case load_observations creation_time obs of
        Inl err \<Rightarrow> Inl err
      | Inr obs_list \<Rightarrow>
      (case map_of e ''name'' of
        None \<Rightarrow> Inl KeyError
      | Some n \<Rightarrow>
      (case map_of e ''entityType'' of
        None \<Rightarrow> Inl KeyError
      | Some ty \<Rightarrow>
      (case (as_str (Some n), as_str (Some ty), as_str (Some creation_time),
             as_str (Some (dict_get_default e ''last_modified'' (JStr (clk t1))))) of
         (Some n', Some ty', Some c', Some m') \<Rightarrow>
           Inr (\<lparr>name = n', entityType = ty', created_at = c', last_modified = m',
                 observations = obs_list\<rparr>, Suc t1)
       | _ \<Rightarrow> Inl ValidationError)))))"
| "load_entity clk t _ = Inl AttributeError"

fun load_entities :: "clock \<Rightarrow> nat \<Rightarrow> json list \<Rightarrow> py_error + (entity list \<times> nat)" where
  "load_entities clk t [] = Inr ([], t)"
| "load_entities clk t (e # es) =
     (case load_entity clk t e of
        Inl err \<Rightarrow> Inl err
      | Inr (x, t1) \<Rightarrow>
          (case load_entities clk t1 es of
             Inl err \<Rightarrow> Inl err
           | Inr (xs, t2) \<Rightarrow> Inr (x # xs, t2)))"

text \<open>
  The body of the loop over the stored relations (lines 183 to 186): a relation without
  the key \<^verbatim>\<open>created_at\<close> gets the clock's reading, then \<^verbatim>\<open>Relation(**r)\<close> validates the
  fields under their aliases. Testing or assigning the key on anything but a dict, and
  \<^verbatim>\<open>**r\<close> on anything but a dict, is a \<^verbatim>\<open>TypeError\<close>.
\<close>

fun load_relation :: "clock \<Rightarrow> nat \<Rightarrow> json \<Rightarrow> py_error + (relation \<times> nat)" where
  "load_relation clk t (JObj r) =
     (let (r1, t1) = (if map_of r ''created_at'' = None
                      then (r @ [(''created_at'', JStr (clk t))], Suc t) else (r, t)) in
      case (as_str (map_of r1 ''from''), as_str (map_of r1 ''to''),
            as_str (map_of r1 ''relationType''), as_str (map_of r1 ''created_at'')) of
        (Some f, Some t', Some ty, Some c) \<Rightarrow>
          Inr (\<lparr>rel_from = f, to = t', relationType = ty, rel_created_at = c\<rparr>, t1)
      | _ \<Rightarrow> Inl ValidationError)"
| "load_relation clk t _ = Inl TypeError"

fun load_relations :: "clock \<Rightarrow> nat \<Rightarrow> json list \<Rightarrow> py_error + (relation list \<times> nat)" where
  "load_relations clk t [] = Inr ([], t)"
| "load_relations clk t (r # rs) =
     (case load_relation clk t r of
        Inl err \<Rightarrow> Inl err
      | Inr (x, t1) \<Rightarrow>
          (case load_relations clk t1 rs of
             Inl err \<Rightarrow> Inl err
           | Inr (xs, t2) \<Rightarrow> Inr (x # xs, t2)))"

text \<open>
  \<^verbatim>\<open>read_graph_file\<close>, from what its first lines found. Only \<^verbatim>\<open>JSONDecodeError\<close> is
  caught: any other exception of the read or of \<^verbatim>\<open>json.loads\<close> escapes, \<^verbatim>\<open>data.get\<close> on a
  value that is not a dict raises \<^verbatim>\<open>AttributeError\<close>, and every exception of the loops
  escapes.
\<close>

fun read_graph_file :: "clock \<Rightarrow> nat \<Rightarrow> disk \<Rightarrow> py_error + (knowledge_graph \<times> nat)" where
  "read_graph_file clk t Absent = Inr (empty_graph, t)"
| "read_graph_file clk t Blank = Inr (empty_graph, t)"
| "read_graph_file clk t Malformed = Inr (empty_graph, t)"
| "read_graph_file clk t (Raises err) = Inl err"
| "read_graph_file clk t (Document (JObj data)) =
     (case py_iter (dict_get_default data ''entities'' (JArr [])) of
        Inl err \<Rightarrow> Inl err
      | Inr es \<Rightarrow>
      (case load_entities clk t es of
        Inl err \<Rightarrow> Inl err
      | Inr (ents, t1) \<Rightarrow>
      (case py_iter (dict_get_default data ''relations'' (JArr [])) of
        Inl err \<Rightarrow> Inl err
      | Inr rs \<Rightarrow>
      (case load_relations clk t1 rs of
        Inl err \<Rightarrow> Inl err
      | Inr (rels, t2) \<Rightarrow> Inr (\<lparr>entities = ents, relations = rels\<rparr>, t2)))))"
| "read_graph_file clk t (Document _) = Inl AttributeError"

text \<open>The whole of \<^verbatim>\<open>read_graph_file\<close>, from the file.\<close>

definition load_graph ::
  "(char \<Rightarrow> bool) \<Rightarrow> (string \<Rightarrow> parse_result) \<Rightarrow> clock \<Rightarrow> nat \<Rightarrow> stored_file
     \<Rightarrow> py_error + (knowledge_graph \<times> nat)" where
  "load_graph isspace loads clk t f = read_graph_file clk t (read_file isspace loads f)"

text \<open>
  \<^verbatim>\<open>save_graph\<close> overwrites the file with \<^verbatim>\<open>graph.model_dump_json(indent=2,
  by_alias=True)\<close>. The serialiser and \<^verbatim>\<open>json.loads\<close> are library code: the model takes
  it that the text written parses back to the document below, whose keys are the field
  names (\<^verbatim>\<open>from\<close> for \<^verbatim>\<open>rel_from\<close>, by alias).
\<close>

definition observation_json :: "observation \<Rightarrow> json" where
  "observation_json ob =
     JObj [(''content'', JStr (content ob)), (''timestamp'', JStr (timestamp ob))]"

definition entity_json :: "entity \<Rightarrow> json" where
  "entity_json e =
     JObj [(''name'', JStr (name e)), (''entityType'', JStr (entityType e)),
           (''created_at'', JStr (created_at e)), (''last_modified'', JStr (last_modified e)),
           (''observations'', JArr (map observation_json (observations e)))]"

definition relation_json :: "relation \<Rightarrow> json" where
  "relation_json r =
     JObj [(''from'', JStr (rel_from r)), (''to'', JStr (to r)),
           (''relationType'', JStr (relationType r)), (''created_at'', JStr (rel_created_at r))]"

definition graph_json :: "knowledge_graph \<Rightarrow> json" where
  "graph_json g =
     JObj [(''entities'', JArr (map entity_json (entities g))),
           (''relations'', JArr (map relation_json (relations g)))]"

definition save_graph :: "knowledge_graph \<Rightarrow> disk" where
  "save_graph g = Document (graph_json g)"

section \<open>Strings\<close>

text \<open>
  \<^verbatim>\<open>needle in haystack\<close> on strings: \<^verbatim>\<open>needle\<close> occurs as a contiguous piece.
\<close>

fun str_in :: "string \<Rightarrow> string \<Rightarrow> bool" where
  "str_in q [] = (q = [])"
| "str_in q (c # cs) = (prefix q (c # cs) \<or> str_in q cs)"

text \<open>
  \<^verbatim>\<open>str.lower()\<close> replaces the character at each position by its lower-case mapping, which
  is one character or several and, for a final sigma, depends on the characters around
  it. The mapping is the library's: \<^verbatim>\<open>to_lower s i\<close> is what the character at position
  \<^verbatim>\<open>i\<close> of \<^verbatim>\<open>s\<close> becomes.
\<close>

definition lower :: "(string \<Rightarrow> nat \<Rightarrow> string) \<Rightarrow> string \<Rightarrow> string" where
  "lower to_lower s = concat (map (to_lower s) [0..<length s])"

section \<open>Mutation handlers\<close>

text \<open>
  Every handler begins with \<^verbatim>\<open>graph = read_graph_file()\<close> and a mutating one ends with
  \<^verbatim>\<open>save_graph(graph)\<close>. A handler is modelled by what lies between the two: a function
  of the request and the loaded graph that returns the graph handed to \<^verbatim>\<open>save_graph\<close>,
  or the exception that escapes before the save (the file is then left as it was). The
  constant acknowledgement messages are left out. \<^verbatim>\<open>current_time\<close> is the one clock
  reading such a handler takes.
\<close>

text \<open>
  \<^verbatim>\<open>next((e for e in graph.entities if ...), None)\<close> is \<^term>\<open>find\<close>; the entity it returns
  is the list's own object, so a later assignment to its fields changes the first
  matching element of the list.
\<close>

fun update_first :: "(entity \<Rightarrow> bool) \<Rightarrow> (entity \<Rightarrow> entity) \<Rightarrow> entity list \<Rightarrow> entity list" where
  "update_first p f [] = []"
| "update_first p f (e # es) = (if p e then f e # es else e # update_first p f es)"

subsection \<open>\<^verbatim>\<open>create_entities\<close>\<close>

text \<open>The string elements of \<^verbatim>\<open>item["observations"]\<close>, stamped; other elements are passed over.\<close>

fun initial_observations :: "string \<Rightarrow> json list \<Rightarrow> observation list" where
  "initial_observations current_time [] = []"
| "initial_observations current_time (JStr s # obs) =
     \<lparr>content = s, timestamp = current_time\<rparr> # initial_observations current_time obs"
| "initial_observations current_time (_ # obs) = initial_observations current_time obs"

text \<open>Membership in a set needs a hash: a list or a dict has none.\<close>

fun hashable :: "json \<Rightarrow> bool" where
  "hashable (JArr _) = False"
| "hashable (JObj _) = False"
| "hashable _ = True"

text \<open>\<^verbatim>\<open>name in existing_names\<close>, a set of strings: only an equal string is a member.\<close>

fun in_names :: "json \<Rightarrow> string set \<Rightarrow> bool" where
  "in_names (JStr s) names = (s \<in> names)"
| "in_names _ names = False"

text \<open>
  The body of the loop of \<^verbatim>\<open>create_entities\<close> (lines 216 to 232), on the pair of
  \<^verbatim>\<open>existing_names\<close> and \<^verbatim>\<open>graph.entities\<close>.
\<close>

definition create_entity ::
  "string \<Rightarrow> dict \<Rightarrow> string set \<times> entity list \<Rightarrow> py_error + (string set \<times> entity list)" where
  "create_entity current_time item st =
     (let n = dict_get item ''name'' in
      if \<not> truthy n then Inr st
      else if \<not> hashable n then Inl TypeError
      else if in_names n (fst st) then Inr st
      else
        (case (as_str (Some n),
               as_str (Some (dict_get_default item ''entityType'' (JStr ''General'')))) of
           (Some n', Some ty) \<Rightarrow>
             (case (if map_of item ''observations'' = None then Inr []
                    else py_iter (dict_get item ''observations'')) of
                Inl err \<Rightarrow> Inl err
              | Inr obs \<Rightarrow>
                  Inr (insert n' (fst st),
                       snd st @ [\<lparr>name = n', entityType = ty, created_at = current_time,
                                  last_modified = current_time,
                                  observations = initial_observations current_time obs\<rparr>]))
         | _ \<Rightarrow> Inl ValidationError))"

fun create_entities_loop ::
  "string \<Rightarrow> dict list \<Rightarrow> string set \<times> entity list \<Rightarrow> py_error + (string set \<times> entity list)" where
  "create_entities_loop current_time [] st = Inr st"
| "create_entities_loop current_time (item # items) st =
     (case create_entity current_time item st of
        Inl err \<Rightarrow> Inl err
      | Inr st' \<Rightarrow> create_entities_loop current_time items st')"

definition create_entities :: "string \<Rightarrow> dict list \<Rightarrow> knowledge_graph \<Rightarrow> py_error + knowledge_graph" where
  "create_entities current_time req g =
     (case create_entities_loop current_time req (set (map name (entities g)), entities g) of
        Inl err \<Rightarrow> Inl err
      | Inr st \<Rightarrow> Inr (g\<lparr>entities := snd st\<rparr>))"

subsection \<open>\<^verbatim>\<open>create_relations\<close>\<close>

text \<open>
  The request holds validated \<^verbatim>\<open>Relation\<close> objects. The loop (lines 244 to 249) works on
  the pair of \<^verbatim>\<open>existing\<close> and \<^verbatim>\<open>graph.relations\<close>.
\<close>

definition create_relation ::
  "string \<Rightarrow> relation \<Rightarrow> (string \<times> string \<times> string) set \<times> relation list
     \<Rightarrow> (string \<times> string \<times> string) set \<times> relation list" where
  "create_relation current_time r st =
     (if triple r \<notin> fst st
      then (insert (triple r) (fst st),
            snd st @ [if rel_created_at r = [] then r\<lparr>rel_created_at := current_time\<rparr> else r])
      else st)"

fun create_relations_loop ::
  "string \<Rightarrow> relation list \<Rightarrow> (string \<times> string \<times> string) set \<times> relation list
     \<Rightarrow> (string \<times> string \<times> string) set \<times> relation list" where
  "create_relations_loop current_time [] st = st"
| "create_relations_loop current_time (r # rs) st =
     create_relations_loop current_time rs (create_relation current_time r st)"

definition create_relations :: "string \<Rightarrow> relation list \<Rightarrow> knowledge_graph \<Rightarrow> knowledge_graph" where
  "create_relations current_time req g =
     g\<lparr>relations :=
          snd (create_relations_loop current_time req
                 (set (map triple (relations g)), relations g))\<rparr>"

subsection \<open>\<^verbatim>\<open>add_observations\<close>\<close>

record observation_item =
  entityName :: string
  contents :: "string list"

text \<open>An entry of the response: \<^verbatim>\<open>f"Added {count} to {item.entityName}"\<close>.\<close>

datatype summary = Added nat string

text \<open>The inner loop (lines 264 to 269), on the entity's observations and \<^verbatim>\<open>count\<close>.\<close>

fun add_contents :: "string \<Rightarrow> string list \<Rightarrow> observation list \<times> nat \<Rightarrow> observation list \<times> nat" where
  "add_contents current_time [] st = st"
| "add_contents current_time (c # cs) st =
     add_contents current_time cs
       (if \<not> list_ex (\<lambda>ob. content ob = c) (fst st)
        then (fst st @ [\<lparr>content = c, timestamp = current_time\<rparr>], Suc (snd st))
        else st)"

text \<open>The body of the outer loop (lines 261 to 272), on \<^verbatim>\<open>graph.entities\<close> and \<^verbatim>\<open>results\<close>.\<close>

definition add_observation_item ::
  "string \<Rightarrow> observation_item \<Rightarrow> entity list \<times> summary list \<Rightarrow> entity list \<times> summary list" where
  "add_observation_item current_time item st =
     (case find (\<lambda>e. name e = entityName item) (fst st) of
        None \<Rightarrow> st
      | Some entity \<Rightarrow>
          (let (obs, count) = add_contents current_time (contents item) (observations entity, 0) in
           if count > 0
           then (update_first (\<lambda>e. name e = entityName item)
                   (\<lambda>e. e\<lparr>observations := obs, last_modified := current_time\<rparr>) (fst st),
                 snd st @ [Added count (entityName item)])
           else (update_first (\<lambda>e. name e = entityName item)
                   (\<lambda>e. e\<lparr>observations := obs\<rparr>) (fst st),
                 snd st)))"

fun add_observations_loop ::
  "string \<Rightarrow> observation_item list \<Rightarrow> entity list \<times> summary list \<Rightarrow> entity list \<times> summary list" where
  "add_observations_loop current_time [] st = st"
| "add_observations_loop current_time (item # items) st =
     add_observations_loop current_time items (add_observation_item current_time item st)"

text \<open>Returns the graph saved and the \<^verbatim>\<open>results\<close> of the response.\<close>

definition add_observations ::
  "string \<Rightarrow> observation_item list \<Rightarrow> knowledge_graph \<Rightarrow> knowledge_graph \<times> summary list" where
  "add_observations current_time req g =
     (let st = add_observations_loop current_time req (entities g, []) in
      (g\<lparr>entities := fst st\<rparr>, snd st))"

subsection \<open>\<^verbatim>\<open>delete_entities\<close>\<close>

definition delete_entities :: "string list \<Rightarrow> knowledge_graph \<Rightarrow> knowledge_graph" where
  "delete_entities entityNames g =
     g\<lparr>entities := [e \<leftarrow> entities g. name e \<notin> set entityNames],
       relations := [r \<leftarrow> relations g. rel_from r \<notin> set entityNames \<and> to r \<notin> set entityNames]\<rparr>"

subsection \<open>\<^verbatim>\<open>delete_observations\<close>\<close>

text \<open>
  \<^verbatim>\<open>o.content in to_delete\<close>, where \<^verbatim>\<open>to_delete\<close> is whatever the request's dict holds:
  element of a list, piece of a string, key of a dict; anything else is a \<^verbatim>\<open>TypeError\<close>.
\<close>

fun py_contains :: "json \<Rightarrow> string \<Rightarrow> py_error + bool" where
  "py_contains (JArr xs) s = Inr (JStr s \<in> set xs)"
| "py_contains (JStr t) s = Inr (str_in s t)"
| "py_contains (JObj d) s = Inr (s \<in> set (map fst d))"
| "py_contains _ s = Inl TypeError"

text \<open>The list comprehension of lines 300 to 302: the test runs once per observation.\<close>

fun keep_observations :: "json \<Rightarrow> observation list \<Rightarrow> py_error + observation list" where
  "keep_observations to_delete [] = Inr []"
| "keep_observations to_delete (ob # obs) =
     (case py_contains to_delete (content ob) of
        Inl err \<Rightarrow> Inl err
      | Inr b \<Rightarrow>
          (case keep_observations to_delete obs of
             Inl err \<Rightarrow> Inl err
           | Inr kept \<Rightarrow> Inr (if b then kept else ob # kept)))"

text \<open>
  The body of the loop (lines 295 to 303), on \<^verbatim>\<open>graph.entities\<close> and the clock:
  \<^verbatim>\<open>datetime.now()\<close> is read for each item that finds an entity.
\<close>

definition delete_observation_item ::
  "clock \<Rightarrow> dict \<Rightarrow> entity list \<times> nat \<Rightarrow> py_error + (entity list \<times> nat)" where
  "delete_observation_item clk item st =
     (case find (\<lambda>e. JStr (name e) = dict_get item ''entityName'') (fst st) of
        None \<Rightarrow> Inr st
      | Some entity \<Rightarrow>
          (case keep_observations (dict_get_default item ''observations'' (JArr []))
                  (observations entity) of
             Inl err \<Rightarrow> Inl err
           | Inr kept \<Rightarrow>
               Inr (update_first (\<lambda>e. JStr (name e) = dict_get item ''entityName'')
                      (\<lambda>e. e\<lparr>observations := kept, last_modified := clk (snd st)\<rparr>) (fst st),
                    Suc (snd st))))"

fun delete_observations_loop ::
  "clock \<Rightarrow> dict list \<Rightarrow> entity list \<times> nat \<Rightarrow> py_error + (entity list \<times> nat)" where
  "delete_observations_loop clk [] st = Inr st"
| "delete_observations_loop clk (item # items) st =
     (case delete_observation_item clk item st of
        Inl err \<Rightarrow> Inl err
      | Inr st' \<Rightarrow> delete_observations_loop clk items st')"

definition delete_observations ::
  "clock \<Rightarrow> nat \<Rightarrow> dict list \<Rightarrow> knowledge_graph \<Rightarrow> py_error + (knowledge_graph \<times> nat)" where
  "delete_observations clk t req g =
     (case delete_observations_loop clk req (entities g, t) of
        Inl err \<Rightarrow> Inl err
      | Inr st \<Rightarrow> Inr (g\<lparr>entities := fst st\<rparr>, snd st))"

section \<open>Query handlers\<close>

definition open_nodes :: "string list \<Rightarrow> knowledge_graph \<Rightarrow> knowledge_graph" where
  "open_nodes names g =
     (let target_names = set names;
          ents = [e \<leftarrow> entities g. name e \<in> target_names];
          found_names = set (map name ents)
      in \<lparr>entities = ents,
          relations = [r \<leftarrow> relations g. rel_from r \<in> found_names \<or> to r \<in> found_names]\<rparr>)"

text \<open>The test of lines 348 to 352, on the lowered query.\<close>

definition matches :: "(string \<Rightarrow> nat \<Rightarrow> string) \<Rightarrow> string \<Rightarrow> entity \<Rightarrow> bool" where
  "matches to_lower query e =
     (str_in query (lower to_lower (name e)) \<or> str_in query (lower to_lower (entityType e))
      \<or> list_ex (\<lambda>ob. str_in query (lower to_lower (content ob))) (observations e))"

definition search_nodes ::
  "(string \<Rightarrow> nat \<Rightarrow> string) \<Rightarrow> string \<Rightarrow> knowledge_graph \<Rightarrow> knowledge_graph" where
  "search_nodes to_lower q g =
     (let query = lower to_lower q;
          matched_entities = [e \<leftarrow> entities g. matches to_lower query e];
          found_names = set (map name matched_entities)
      in \<lparr>entities = matched_entities,
          relations = [r \<leftarrow> relations g. rel_from r \<in> found_names \<and> to r \<in> found_names]\<rparr>)"

subsection \<open>\<^verbatim>\<open>retrieve_context\<close>\<close>

text \<open>
  The ranking engine is outside the program: \<^verbatim>\<open>wl\<close> is \<^verbatim>\<open>None\<close> or an object whose
  \<^verbatim>\<open>rank(query, docs, sort=True)\<close> raises (with a message) or returns pairs of a text
  and a score. Scores are floats: their type is left open, and
  \<^verbatim>\<open>round(float(score), 4)\<close> is a parameter that may raise as well.
\<close>

datatype 's rank_outcome = Raised string | Ranked "(string \<times> 's) list"

type_synonym 's engine = "string \<Rightarrow> string list \<Rightarrow> 's rank_outcome"

record retrieve_context_request =
  canonical_entity :: string
  query_thought :: string
  top_k :: int

record 'r ranked_item =
  item_content :: string
  item_score :: 'r
  item_created_at :: string

text \<open>
  The three shapes of the response: \<^verbatim>\<open>{"error": ...}\<close>; \<^verbatim>\<open>{"tag", "results",
  "message"}\<close>; \<^verbatim>\<open>{"tag", "query", "results"}\<close>.
\<close>

datatype 'r reply =
  Error_reply string
| Message_reply string "'r ranked_item list" string
| Results_reply string string "'r ranked_item list"

text \<open>The observations the two nested loops of lines 373 to 377 visit, in order.\<close>

definition candidate_observations ::
  "(string \<Rightarrow> nat \<Rightarrow> string) \<Rightarrow> string \<Rightarrow> entity list \<Rightarrow> observation list" where
  "candidate_observations to_lower target_tag ents =
     concat (map observations
               [e \<leftarrow> ents. str_in target_tag (lower to_lower (entityType e))])"

text \<open>\<^verbatim>\<open>doc_map[obs.content] = obs\<close> for each of them: a later one replaces an earlier one.\<close>

definition doc_map_of :: "observation list \<Rightarrow> (string \<rightharpoonup> observation)" where
  "doc_map_of obs = foldl (\<lambda>m ob. m(content ob \<mapsto> ob)) Map.empty obs"

text \<open>\<^verbatim>\<open>xs[:k]\<close>: a negative \<^verbatim>\<open>k\<close> counts from the end.\<close>

definition py_take :: "int \<Rightarrow> 'a list \<Rightarrow> 'a list" where
  "py_take k xs = (if 0 \<le> k then take (nat k) xs else take (nat (int (length xs) + k)) xs)"

text \<open>The loop of lines 390 to 398; an exception of the rounding ends it.\<close>

fun top_results ::
  "('s \<Rightarrow> string + 'r) \<Rightarrow> (string \<rightharpoonup> observation) \<Rightarrow> (string \<times> 's) list
     \<Rightarrow> string + 'r ranked_item list" where
  "top_results round4 doc_map [] = Inr []"
| "top_results round4 doc_map ((text, score) # rest) =
     (case round4 score of
        Inl msg \<Rightarrow> Inl msg
      | Inr sc \<Rightarrow>
          (case top_results round4 doc_map rest of
             Inl msg \<Rightarrow> Inl msg
           | Inr items \<Rightarrow>
               Inr (\<lparr>item_content = text, item_score = sc,
                     item_created_at = (case doc_map text of Some original \<Rightarrow> timestamp original
                                        | None \<Rightarrow> [])\<rparr> # items)))"

text \<open>
  \<^verbatim>\<open>retrieve_context\<close>, from the file: the engine is tested before the file is read, the
  read is outside the \<^verbatim>\<open>try\<close>, so that what \<^verbatim>\<open>read_graph_file\<close> raises leaves the handler,
  and \<^verbatim>\<open>except Exception\<close> turns whatever the \<^verbatim>\<open>try\<close> block raises into an error response.
\<close>

definition retrieve_context ::
  "(string \<Rightarrow> nat \<Rightarrow> string) \<Rightarrow> 's engine option \<Rightarrow> ('s \<Rightarrow> string + 'r) \<Rightarrow> clock \<Rightarrow> nat
     \<Rightarrow> disk \<Rightarrow> retrieve_context_request \<Rightarrow> py_error + 'r reply" where
  "retrieve_context to_lower wl round4 clk t file req =
     (case wl of
        None \<Rightarrow> Inr (Error_reply ''WordLlama engine not loaded.'')
      | Some rank \<Rightarrow>
          (case read_graph_file clk t file of
             Inl err \<Rightarrow> Inl err
           | Inr (graph, _) \<Rightarrow>
               (let target_tag = lower to_lower (canonical_entity req);
                    cands = candidate_observations to_lower target_tag (entities graph);
                    candidate_docs = map content cands;
                    doc_map = doc_map_of cands
                in if candidate_docs = []
                   then Inr (Message_reply (canonical_entity req) [] ''No memories found.'')
                   else
                     (case rank (query_thought req) candidate_docs of
                        Raised msg \<Rightarrow> Inr (Error_reply (''Reranking failed: '' @ msg))
                      | Ranked ranked_results \<Rightarrow>
                          (case top_results round4 doc_map (py_take (top_k req) ranked_results) of
                             Inl msg \<Rightarrow> Inr (Error_reply (''Reranking failed: '' @ msg))
                           | Inr top_items \<Rightarrow>
                               Inr (Results_reply (canonical_entity req) (query_thought req)
                                      top_items))))))"

section \<open>What the load promises\<close>




section \<open>What the observation handlers promise\<close>

text \<open>
  The entity at position \<^verbatim>\<open>i\<close> is the first of its name in the list: the one that
  \<^verbatim>\<open>next(...)\<close> finds for that name.
\<close>

definition first_of_name :: "entity list \<Rightarrow> nat \<Rightarrow> bool" where
  "first_of_name ents i \<longleftrightarrow> (\<forall>j<i. name (ents ! j) \<noteq> name (ents ! i))"

text \<open>The contents that the items of an \<^verbatim>\<open>add_observations\<close> request give for a name.\<close>

definition requested :: "observation_item list \<Rightarrow> string \<Rightarrow> string set" where
  "requested req nm = set (concat (map contents [it \<leftarrow> req. entityName it = nm]))"

text \<open>
  \<^verbatim>\<open>e'\<close> is \<^verbatim>\<open>e\<close> with new observations appended: one, stamped \<^verbatim>\<open>ct\<close>, for each wanted
  content that \<^verbatim>\<open>e\<close> does not hold, and no other; \<^verbatim>\<open>last_modified\<close> is \<^verbatim>\<open>ct\<close> if there
  is a new observation and is kept otherwise.
\<close>

definition appended :: "string \<Rightarrow> string set \<Rightarrow> entity \<Rightarrow> entity \<Rightarrow> bool" where
  "appended ct wanted e e' \<longleftrightarrow>
     (\<exists>new. e' = e\<lparr>observations := observations e @ new,
                    last_modified := (if new = [] then last_modified e else ct)\<rparr>
        \<and> (\<forall>ob \<in> set new. timestamp ob = ct) \<and> distinct (map content new)
        \<and> set (map content new) = wanted - set (map content (observations e)))"

text \<open>
  A deletion item names an entity when its \<^verbatim>\<open>entityName\<close> is the entity's name, and lists
  a content when its \<^verbatim>\<open>observations\<close> is a list with that string in it.
\<close>

definition names_entity :: "dict \<Rightarrow> entity \<Rightarrow> bool" where
  "names_entity item e \<longleftrightarrow> dict_get item ''entityName'' = JStr (name e)"

definition listed :: "dict \<Rightarrow> string \<Rightarrow> bool" where
  "listed item c =
     (case dict_get_default item ''observations'' (JArr []) of
        JArr xs \<Rightarrow> JStr c \<in> set xs
      | _ \<Rightarrow> False)"

text \<open>
  \<^verbatim>\<open>e'\<close> is \<^verbatim>\<open>e\<close> without the observations whose content is gone, and with
  \<^verbatim>\<open>last_modified\<close> a reading that the clock gave from its \<^verbatim>\<open>t\<close>-th on and before its
  \<^verbatim>\<open>t'\<close>-th.
\<close>

definition erased :: "clock \<Rightarrow> nat \<Rightarrow> nat \<Rightarrow> (string \<Rightarrow> bool) \<Rightarrow> entity \<Rightarrow> entity \<Rightarrow> bool" where
  "erased clk t t' gone e e' \<longleftrightarrow>
     (\<exists>k. t \<le> k \<and> k < t'
        \<and> e' = e\<lparr>observations := [ob \<leftarrow> observations e. \<not> gone (content ob)],
                  last_modified := clk k\<rparr>)"

section \<open>Example data\<close>

text \<open>
  The library on the texts of the examples, which are ASCII. There \<^verbatim>\<open>str.lower\<close> maps
  each of the letters A to Z to its small letter and keeps any other character; space,
  tab, line feed and carriage return are white space; and \<^verbatim>\<open>json.loads\<close> returns the
  empty list on \<^verbatim>\<open>[]\<close>, the empty dict on \<^verbatim>\<open>{}\<close>, and raises \<^verbatim>\<open>JSONDecodeError\<close> on \<^verbatim>\<open>{\<close>
  (\<^verbatim>\<open>example_loads\<close> stands for it on these three texts only).
\<close>

definition lower_char :: "char \<Rightarrow> char" where
  "lower_char c =
     (case map_of (zip ''ABCDEFGHIJKLMNOPQRSTUVWXYZ'' ''abcdefghijklmnopqrstuvwxyz'') c of
        Some d \<Rightarrow> d
      | None \<Rightarrow> c)"

definition ascii_to_lower :: "string \<Rightarrow> nat \<Rightarrow> string" where
  "ascii_to_lower s i = [lower_char (s ! i)]"

definition ascii_space :: "char \<Rightarrow> bool" where
  "ascii_space c = (c \<in> set [CHR '' '', CHR 0x09, CHR 0x0A, CHR 0x0D])"

definition example_loads :: "string \<Rightarrow> parse_result" where
  "example_loads s =
     (if s = ''[]'' then Parsed (JArr [])
      else if s = ''{}'' then Parsed (JObj [])
      else JSONDecodeError)"

text \<open>
  The graph of the end-to-end scenario: Alice, who likes tea, knows Bob. The clock of
  the examples gives a different reading at every call.
\<close>

definition example_clock :: clock where
  "example_clock n = ''2024-02-02T00:00:00.'' @ replicate n (CHR ''0'')"

definition alice :: entity where
  "alice = \<lparr>name = ''Alice'', entityType = ''Person'', created_at = ''2024-01-01T10:00:00'',
            last_modified = ''2024-01-01T10:00:00'',
            observations = [\<lparr>content = ''likes tea'', timestamp = ''2024-01-01T10:00:00''\<rparr>]\<rparr>"

definition bob :: entity where
  "bob = \<lparr>name = ''Bob'', entityType = ''Person'', created_at = ''2024-01-01T10:00:01'',
          last_modified = ''2024-01-01T10:00:01'', observations = []\<rparr>"

definition alice_knows_bob :: relation where
  "alice_knows_bob = \<lparr>rel_from = ''Alice'', to = ''Bob'', relationType = ''knows'',
                      rel_created_at = ''2024-01-01T10:00:02''\<rparr>"

definition example_graph :: knowledge_graph where
  "example_graph = \<lparr>entities = [alice, bob], relations = [alice_knows_bob]\<rparr>"

text \<open>An entity whose \<^verbatim>\<open>created_at\<close> is the empty string.\<close>

definition undated :: entity where
  "undated = \<lparr>name = ''X'', entityType = ''Note'', created_at = [],
              last_modified = ''2024-01-01T10:00:00'', observations = []\<rparr>"

text \<open>Two entities \<^verbatim>\<open>A\<close> and \<^verbatim>\<open>B\<close> and the relation from \<^verbatim>\<open>A\<close> to \<^verbatim>\<open>B\<close> of type \<^verbatim>\<open>knows\<close>.\<close>

definition node_a :: entity where
  "node_a = \<lparr>name = ''A'', entityType = ''Node'', created_at = ''2024-01-01T10:00:00'',
             last_modified = ''2024-01-01T10:00:00'', observations = []\<rparr>"

definition node_b :: entity where
  "node_b = \<lparr>name = ''B'', entityType = ''Node'', created_at = ''2024-01-01T10:00:00'',
             last_modified = ''2024-01-01T10:00:00'', observations = []\<rparr>"

definition a_knows_b :: relation where
  "a_knows_b = \<lparr>rel_from = ''A'', to = ''B'', relationType = ''knows'',
                rel_created_at = ''2024-01-01T10:00:00''\<rparr>"

definition ab_graph :: knowledge_graph where
  "ab_graph = \<lparr>entities = [node_a, node_b], relations = [a_knows_b]\<rparr>"

text \<open>An engine whose \<^verbatim>\<open>rank\<close> always raises, and two requests.\<close>

definition failing_engine :: "int engine" where
  "failing_engine query docs = Raised ''model not ready''"

definition person_request :: retrieve_context_request where
  "person_request = \<lparr>canonical_entity = ''PERSON'', query_thought = ''hot drinks'', top_k = 3\<rparr>"

definition city_request :: retrieve_context_request where
  "city_request = \<lparr>canonical_entity = ''City'', query_thought = ''hot drinks'', top_k = 3\<rparr>"

text \<open>A request item for a new entity, and the entity it creates at 09:00 on 3 March.\<close>

definition carol_item :: dict where
  "carol_item = [(''name'', JStr ''Carol''), (''entityType'', JStr ''Person''),
                 (''observations'', JArr [JStr ''plays chess''])]"

definition carol :: entity where
  "carol = \<lparr>name = ''Carol'', entityType = ''Person'', created_at = ''2024-03-03T09:00:00'',
            last_modified = ''2024-03-03T09:00:00'',
            observations = [\<lparr>content = ''plays chess'', timestamp = ''2024-03-03T09:00:00''\<rparr>]\<rparr>"

text \<open>
  Requests to add the observation \<^verbatim>\<open>C\<close>; and an entity created from an item that lists
  \<^verbatim>\<open>C\<close> twice among its initial observations.
\<close>

definition bob_item :: observation_item where
  "bob_item = \<lparr>entityName = ''Bob'', contents = [''C'']\<rparr>"

definition bob_more :: observation_item where
  "bob_more = \<lparr>entityName = ''Bob'', contents = [''C'', ''D'']\<rparr>"

definition nobody_item :: observation_item where
  "nobody_item = \<lparr>entityName = ''Nobody'', contents = [''C'']\<rparr>"

definition echo_item :: dict where
  "echo_item = [(''name'', JStr ''Echo''), (''observations'', JArr [JStr ''C'', JStr ''C''])]"

definition echo :: entity where
  "echo = \<lparr>name = ''Echo'', entityType = ''General'', created_at = ''2024-03-03T09:00:00'',
           last_modified = ''2024-03-03T09:00:00'',
           observations = [\<lparr>content = ''C'', timestamp = ''2024-03-03T09:00:00''\<rparr>,
                           \<lparr>content = ''C'', timestamp = ''2024-03-03T09:00:00''\<rparr>]\<rparr>"

definition echo_request :: observation_item where
  "echo_request = \<lparr>entityName = ''Echo'', contents = [''C'']\<rparr>"

text \<open>Deletion items for Alice: one lists a content she does not hold, one a content she holds.\<close>

definition miss_item :: dict where
  "miss_item = [(''entityName'', JStr ''Alice''), (''observations'', JArr [JStr ''likes coffee''])]"

definition tea_item :: dict where
  "tea_item = [(''entityName'', JStr ''Alice''), (''observations'', JArr [JStr ''likes tea''])]"



section \<open>Persistence: properties\<close>

lemma load_observations_json:
  "load_observations ct (map observation_json obs) = Inr obs"
  by (induction obs) (simp_all add: observation_json_def)

lemma load_entity_json:
  assumes "created_at e \<noteq> []"
  shows "load_entity clk t (entity_json e) = Inr (e, Suc t)"
  using assms
  by (simp add: entity_json_def creation_time_of_def dict_get_def dict_get_default_def
      load_observations_json)

lemma load_entities_json:
  assumes "\<forall>e \<in> set es. created_at e \<noteq> []"
  shows "load_entities clk t (map entity_json es) = Inr (es, t + length es)"
  using assms
  by (induction es arbitrary: t) (simp_all add: load_entity_json)

lemma load_relation_json:
  "load_relation clk t (relation_json r) = Inr (r, t)"
  by (simp add: relation_json_def)

lemma load_relations_json:
  "load_relations clk t (map relation_json rs) = Inr (rs, t)"
  by (induction rs) (simp_all add: load_relation_json)

text \<open>
  C1 (as amended). Saving a graph and loading the file again gives the same graph, entity
  for entity and relation for relation, in the same order, provided no entity has the
  empty string as \<^verbatim>\<open>created_at\<close>. The load reads the clock once per entity.
\<close>

theorem save_then_load:
  assumes "\<forall>e \<in> set (entities g). created_at e \<noteq> []"
  shows "read_graph_file clk t (save_graph g) = Inr (g, t + length (entities g))"
  using assms
  by (simp add: save_graph_def graph_json_def dict_get_default_def load_entities_json
      load_relations_json)

theorem save_then_load_witness:
  "read_graph_file example_clock 0 (save_graph example_graph) = Inr (example_graph, 2)"
proof -
  have h: "\<forall>e \<in> set (entities example_graph). created_at e \<noteq> []"
    by (simp add: example_graph_def alice_def bob_def)
  show ?thesis
    using save_then_load [OF h, of example_clock 0]
    by (simp add: example_graph_def)
qed

text \<open>
  C1 as stated fails: an empty \<^verbatim>\<open>created_at\<close> is falsy, so the load replaces it by
  \<^verbatim>\<open>last_modified\<close>.
\<close>

theorem save_then_load_counterexample:
  "read_graph_file example_clock 0 (save_graph \<lparr>entities = [undated], relations = []\<rparr>)
   = Inr (\<lparr>entities = [undated\<lparr>created_at := ''2024-01-01T10:00:00''\<rparr>], relations = []\<rparr>, 1)
   \<and> undated\<lparr>created_at := ''2024-01-01T10:00:00''\<rparr> \<noteq> undated"
  by (simp add: save_graph_def graph_json_def entity_json_def undated_def
      dict_get_default_def dict_get_def creation_time_of_def)

lemma py_strip_Nil_iff: "py_strip isspace s = [] \<longleftrightarrow> (\<forall>c \<in> set s. isspace c)"
proof
  assume "py_strip isspace s = []"
  then have "dropWhile isspace (rev (dropWhile isspace s)) = []"
    by (simp add: py_strip_def)
  then have all: "\<forall>c \<in> set (dropWhile isspace s). isspace c"
    unfolding dropWhile_eq_Nil_conv by simp
  have "dropWhile isspace s = []"
  proof (rule ccontr)
    assume ne: "dropWhile isspace s \<noteq> []"
    then have "\<not> isspace (hd (dropWhile isspace s))" by (rule hd_dropWhile)
    moreover have "hd (dropWhile isspace s) \<in> set (dropWhile isspace s)" using ne by simp
    ultimately show False using all by blast
  qed
  then show "\<forall>c \<in> set s. isspace c" unfolding dropWhile_eq_Nil_conv .
next
  assume "\<forall>c \<in> set s. isspace c"
  then have e: "dropWhile isspace s = []" unfolding dropWhile_eq_Nil_conv .
  show "py_strip isspace s = []" unfolding py_strip_def e by simp
qed

text \<open>
  C2 (as amended). The load returns the empty graph, and reads no clock, when the file
  does not exist, when its text is white space only, and when \<^verbatim>\<open>json.loads\<close> raises
  \<^verbatim>\<open>JSONDecodeError\<close> on the stripped text. Everything else that goes wrong leaves the
  load as an exception: what opening or reading the file raises; what \<^verbatim>\<open>json.loads\<close>
  raises other than \<^verbatim>\<open>JSONDecodeError\<close>; \<^verbatim>\<open>AttributeError\<close> when the parsed value is not an
  object; \<^verbatim>\<open>TypeError\<close> when the object's \<^verbatim>\<open>entities\<close> is a number, a boolean or null;
  \<^verbatim>\<open>AttributeError\<close> when the first stored entity is not an object; \<^verbatim>\<open>KeyError\<close> when the
  first stored entity is an object with neither \<^verbatim>\<open>observations\<close> nor \<^verbatim>\<open>name\<close>.
\<close>

theorem load_degrades_to_empty_graph:
  "load_graph isspace loads clk t Missing = Inr (empty_graph, t) \<and>
   ((\<forall>c \<in> set s. isspace c)
      \<longrightarrow> load_graph isspace loads clk t (Text s) = Inr (empty_graph, t)) \<and>
   ((\<exists>c \<in> set s. \<not> isspace c) \<and> loads (py_strip isspace s) = JSONDecodeError
      \<longrightarrow> load_graph isspace loads clk t (Text s) = Inr (empty_graph, t)) \<and>
   load_graph isspace loads clk t (Unreadable err) = Inl err \<and>
   ((\<exists>c \<in> set s. \<not> isspace c) \<and> loads (py_strip isspace s) = Parse_raises err
      \<longrightarrow> load_graph isspace loads clk t (Text s) = Inl err) \<and>
   ((\<exists>c \<in> set s. \<not> isspace c) \<and> loads (py_strip isspace s) = Parsed data
    \<and> (\<forall>d. data \<noteq> JObj d)
      \<longrightarrow> load_graph isspace loads clk t (Text s) = Inl AttributeError) \<and>
   ((\<exists>c \<in> set s. \<not> isspace c) \<and> loads (py_strip isspace s) = Parsed (JObj d)
    \<and> map_of d ''entities'' = Some v \<and> (v = JNull \<or> (\<exists>b. v = JBool b) \<or> (\<exists>n. v = JNum n))
      \<longrightarrow> load_graph isspace loads clk t (Text s) = Inl TypeError) \<and>
   ((\<exists>c \<in> set s. \<not> isspace c) \<and> loads (py_strip isspace s) = Parsed (JObj d)
    \<and> map_of d ''entities'' = Some (JArr (x # es)) \<and> (\<forall>e. x \<noteq> JObj e)
      \<longrightarrow> load_graph isspace loads clk t (Text s) = Inl AttributeError) \<and>
   ((\<exists>c \<in> set s. \<not> isspace c) \<and> loads (py_strip isspace s) = Parsed (JObj d)
    \<and> map_of d ''entities'' = Some (JArr (JObj e # es))
    \<and> map_of e ''observations'' = None \<and> map_of e ''name'' = None
      \<longrightarrow> load_graph isspace loads clk t (Text s) = Inl KeyError)"
proof -
  have blank: "load_graph isspace loads clk t (Text s) = Inr (empty_graph, t)"
    if "\<forall>c \<in> set s. isspace c"
    using that py_strip_Nil_iff [of isspace s] by (simp add: load_graph_def read_file_def)
  have doc: "load_graph isspace loads clk t (Text s)
      = (case loads (py_strip isspace s) of
           JSONDecodeError \<Rightarrow> Inr (empty_graph, t)
         | Parse_raises err \<Rightarrow> Inl err
         | Parsed data \<Rightarrow> read_graph_file clk t (Document data))"
    if "\<exists>c \<in> set s. \<not> isspace c"
  proof -
    have "py_strip isspace s \<noteq> []" using that py_strip_Nil_iff [of isspace s] by blast
    then show ?thesis
      by (simp add: load_graph_def read_file_def split: parse_result.split)
  qed
  have shape: "read_graph_file clk t (Document data) = Inl AttributeError"
    if "\<forall>d. data \<noteq> JObj d"
    using that by (cases data) simp_all
  have iter: "read_graph_file clk t (Document (JObj d)) = Inl TypeError"
    if "map_of d ''entities'' = Some v" "v = JNull \<or> (\<exists>b. v = JBool b) \<or> (\<exists>n. v = JNum n)"
    using that by (auto simp: dict_get_default_def)
  have ent: "read_graph_file clk t (Document (JObj d)) = Inl AttributeError"
    if "map_of d ''entities'' = Some (JArr (x # es))" "\<forall>e. x \<noteq> JObj e"
    using that by (cases x) (simp_all add: dict_get_default_def)
  have key: "read_graph_file clk t (Document (JObj d)) = Inl KeyError"
    if "map_of d ''entities'' = Some (JArr (JObj e # es))"
      "map_of e ''observations'' = None" "map_of e ''name'' = None"
    using that
    by (simp add: dict_get_default_def Let_def split: prod.split)
  show ?thesis
    using blank doc shape iter ent key
    by (simp add: load_graph_def read_file_def)
qed

theorem load_degrades_to_empty_graph_witness:
  "load_graph ascii_space example_loads example_clock 0 (Text [CHR '' '', CHR 0x0A])
     = Inr (empty_graph, 0) \<and>
   load_graph ascii_space example_loads example_clock 0 (Text '' { '') = Inr (empty_graph, 0) \<and>
   load_graph ascii_space example_loads example_clock 0 (Text '' [] '') = Inl AttributeError"
proof -
  have sp: "\<forall>c \<in> set [CHR '' '', CHR 0x0A]. ascii_space c"
    by (simp add: ascii_space_def)
  have ns: "\<exists>c \<in> set '' { ''. \<not> ascii_space c"
    by (simp add: ascii_space_def)
  have bad: "example_loads (py_strip ascii_space '' { '') = JSONDecodeError"
    by (simp add: py_strip_def ascii_space_def example_loads_def)
  have na: "\<exists>c \<in> set '' [] ''. \<not> ascii_space c"
    by (simp add: ascii_space_def)
  have arr: "example_loads (py_strip ascii_space '' [] '') = Parsed (JArr [])"
    by (simp add: py_strip_def ascii_space_def example_loads_def)
  show ?thesis
    using load_degrades_to_empty_graph [of ascii_space example_loads example_clock 0
        "[CHR '' '', CHR 0x0A]"]
      load_degrades_to_empty_graph [of ascii_space example_loads example_clock 0 "'' { ''"]
      load_degrades_to_empty_graph [of ascii_space example_loads example_clock 0 "'' [] ''"
        _ "JArr []"]
      sp ns bad na arr
    by simp
qed

text \<open>
  C2 as stated fails: a file that holds \<^verbatim>\<open>[]\<close> is valid JSON and the load raises
  \<^verbatim>\<open>AttributeError\<close> on it; and a file that holds an entity without \<^verbatim>\<open>name\<close> makes the
  load raise \<^verbatim>\<open>KeyError\<close>.
\<close>

theorem load_raises_counterexample:
  "read_graph_file example_clock 0 (Document (JArr [])) = Inl AttributeError \<and>
   read_graph_file example_clock 0
     (Document (JObj [(''entities'', JArr [JObj [(''entityType'', JStr ''Person'')]])]))
   = Inl KeyError"
  by (simp add: dict_get_default_def dict_get_def creation_time_of_def)

section \<open>Queries and deletion: properties\<close>

lemma str_in_sublist: "str_in q s = sublist q s"
  by (induction s) (simp_all add: sublist_Cons_right)

lemma str_in_Nil: "str_in [] s"
  by (simp add: str_in_sublist)

lemma lower_ascii: "lower ascii_to_lower s = map lower_char s"
proof -
  have "concat (map (ascii_to_lower s) [0..<length s])
      = map (\<lambda>i. lower_char (s ! i)) [0..<length s]"
    by (induction "[0..<length s]") (simp_all add: ascii_to_lower_def concat_map_singleton)
  also have "\<dots> = map lower_char (map ((!) s) [0..<length s])" by simp
  also have "\<dots> = map lower_char s" by (simp only: map_nth)
  finally show ?thesis by (simp add: lower_def)
qed

lemma matches_iff:
  "matches to_lower q e \<longleftrightarrow>
     sublist q (lower to_lower (name e)) \<or> sublist q (lower to_lower (entityType e))
     \<or> (\<exists>ob \<in> set (observations e). sublist q (lower to_lower (content ob)))"
  by (simp add: matches_def str_in_sublist list_ex_iff)

text \<open>
  C3. After \<^verbatim>\<open>delete_entities\<close> no entity has a name among those given and no
  relation has such a name at either end, whether or not an entity of that name existed;
  what is kept is exactly the other entities and the relations with both ends outside the
  names, in their order. Deleting \<^verbatim>\<open>A\<close> from the graph of \<^verbatim>\<open>A\<close>, \<^verbatim>\<open>B\<close> and the relation
  between them leaves \<^verbatim>\<open>B\<close> and no relation.
\<close>

theorem delete_entities_cascade:
  "(\<forall>e \<in> set (entities (delete_entities names g)). name e \<notin> set names) \<and>
   (\<forall>r \<in> set (relations (delete_entities names g)).
      rel_from r \<notin> set names \<and> to r \<notin> set names) \<and>
   entities (delete_entities names g) = [e \<leftarrow> entities g. name e \<notin> set names] \<and>
   relations (delete_entities names g)
     = [r \<leftarrow> relations g. rel_from r \<notin> set names \<and> to r \<notin> set names]"
  by (simp add: delete_entities_def)

theorem delete_entities_cascade_witness:
  "delete_entities [''A''] ab_graph = \<lparr>entities = [node_b], relations = []\<rparr>"
  using delete_entities_cascade [of "[''A'']" ab_graph]
  by (simp add: delete_entities_def ab_graph_def node_a_def node_b_def a_knows_b_def)

text \<open>
  C10. A search for the empty string returns every entity, and the relations both of
  whose ends are names of entities.
\<close>

theorem search_nodes_empty_query:
  "entities (search_nodes to_lower [] g) = entities g \<and>
   relations (search_nodes to_lower [] g)
     = [r \<leftarrow> relations g. rel_from r \<in> set (map name (entities g))
                          \<and> to r \<in> set (map name (entities g))]"
  by (simp add: search_nodes_def lower_def matches_def str_in_Nil)

text \<open>
  C7. \<^verbatim>\<open>open_nodes\<close> returns the entities named and the relations with at least one end
  among the names found (requested and present). \<^verbatim>\<open>search_nodes\<close> returns the entities of
  which the name, the type or an observation, lowered by \<^verbatim>\<open>str.lower\<close>, contains the
  lowered query (whatever the library's lower-case mapping is), and the relations with
  both ends among the names matched. So a relation of the graph
  whose source is requested and present, and whose target is not matched, is in the
  result of \<^verbatim>\<open>open_nodes\<close> and not in that of \<^verbatim>\<open>search_nodes\<close>.
\<close>

theorem endpoint_rules:
  "entities (open_nodes names g) = [e \<leftarrow> entities g. name e \<in> set names] \<and>
   relations (open_nodes names g)
     = [r \<leftarrow> relations g. rel_from r \<in> set names \<inter> set (map name (entities g))
                          \<or> to r \<in> set names \<inter> set (map name (entities g))] \<and>
   entities (search_nodes to_lower q g) = [e \<leftarrow> entities g. matches to_lower (lower to_lower q) e] \<and>
   (\<forall>e. matches to_lower (lower to_lower q) e \<longleftrightarrow>
      sublist (lower to_lower q) (lower to_lower (name e)) \<or> sublist (lower to_lower q) (lower to_lower (entityType e))
      \<or> (\<exists>ob \<in> set (observations e). sublist (lower to_lower q) (lower to_lower (content ob)))) \<and>
   relations (search_nodes to_lower q g)
     = [r \<leftarrow> relations g. rel_from r \<in> set (map name (entities (search_nodes to_lower q g)))
                          \<and> to r \<in> set (map name (entities (search_nodes to_lower q g)))] \<and>
   (\<forall>r \<in> set (relations g).
      rel_from r \<in> set names \<and> rel_from r \<in> set (map name (entities g))
      \<and> to r \<notin> set (map name (entities (search_nodes to_lower q g)))
      \<longrightarrow> r \<in> set (relations (open_nodes names g))
          \<and> r \<notin> set (relations (search_nodes to_lower q g)))"
proof -
  have found: "set (map name [e \<leftarrow> entities g. name e \<in> set names])
      = set names \<inter> set (map name (entities g))"
    by auto
  have rels: "relations (open_nodes names g)
     = [r \<leftarrow> relations g. rel_from r \<in> set names \<inter> set (map name (entities g))
                          \<or> to r \<in> set names \<inter> set (map name (entities g))]"
    unfolding open_nodes_def Let_def using found by simp
  have srch: "relations (search_nodes to_lower q g)
     = [r \<leftarrow> relations g. rel_from r \<in> set (map name (entities (search_nodes to_lower q g)))
                          \<and> to r \<in> set (map name (entities (search_nodes to_lower q g)))]"
    by (simp add: search_nodes_def Let_def)
  have contrast: "\<forall>r \<in> set (relations g).
      rel_from r \<in> set names \<and> rel_from r \<in> set (map name (entities g))
      \<and> to r \<notin> set (map name (entities (search_nodes to_lower q g)))
      \<longrightarrow> r \<in> set (relations (open_nodes names g))
          \<and> r \<notin> set (relations (search_nodes to_lower q g))"
  proof (intro ballI impI)
    fix r
    assume r: "r \<in> set (relations g)"
      and h: "rel_from r \<in> set names \<and> rel_from r \<in> set (map name (entities g))
        \<and> to r \<notin> set (map name (entities (search_nodes to_lower q g)))"
    have a: "r \<in> set (relations (open_nodes names g))"
      using r h by (subst rels) simp
    have b: "r \<notin> set (relations (search_nodes to_lower q g))"
      using h by (subst srch) simp
    show "r \<in> set (relations (open_nodes names g)) \<and> r \<notin> set (relations (search_nodes to_lower q g))"
      using a b by simp
  qed
  show ?thesis
    using rels srch contrast
    by (simp add: open_nodes_def search_nodes_def Let_def matches_iff)
qed

theorem endpoint_rules_witness:
  "a_knows_b \<in> set (relations (open_nodes [''A''] ab_graph)) \<and>
   a_knows_b \<notin> set (relations (search_nodes ascii_to_lower ''A'' ab_graph)) \<and>
   entities (search_nodes ascii_to_lower ''A'' ab_graph) = [node_a]"
proof -
  have m: "entities (search_nodes ascii_to_lower ''A'' ab_graph) = [node_a]"
    by (simp add: search_nodes_def Let_def ab_graph_def node_a_def node_b_def matches_def
        lower_ascii lower_char_def)
  have r: "a_knows_b \<in> set (relations ab_graph)"
    by (simp add: ab_graph_def)
  have h: "rel_from a_knows_b \<in> set [''A''] \<and> rel_from a_knows_b \<in> set (map name (entities ab_graph))
      \<and> to a_knows_b \<notin> set (map name (entities (search_nodes ascii_to_lower ''A'' ab_graph)))"
    by (simp add: m) (simp add: ab_graph_def a_knows_b_def node_a_def node_b_def)
  show ?thesis
    using endpoint_rules [of "[''A'']" ab_graph ascii_to_lower "''A''"] r h m by blast
qed

section \<open>\<^verbatim>\<open>retrieve_context\<close>: properties\<close>

lemma candidate_observations_Nil_iff:
  "candidate_observations to_lower tag ents = [] \<longleftrightarrow>
     (\<forall>e \<in> set ents. sublist tag (lower to_lower (entityType e)) \<longrightarrow> observations e = [])"
  by (auto simp: candidate_observations_def str_in_sublist)

text \<open>
  C9 (as amended). Without an engine the handler answers with the engine-unavailable
  error, whatever the file holds. With an engine, what \<^verbatim>\<open>read_graph_file\<close> raises leaves
  the handler: the read is outside the \<^verbatim>\<open>try\<close>. With an engine and a file that loads: if
  no entity whose lowered type contains the lowered \<^verbatim>\<open>canonical_entity\<close> has an
  observation, the answer is the message \<^verbatim>\<open>No memories found.\<close> with an empty result
  list; if \<^verbatim>\<open>rank\<close> raises, the answer is an error field carrying the message; and in
  every case the handler returns an answer and raises nothing.
\<close>

theorem retrieve_context_soft_fail:
  "retrieve_context to_lower None round4 clk t file req
     = Inr (Error_reply ''WordLlama engine not loaded.'') \<and>
   (read_graph_file clk t file = Inl err
    \<longrightarrow> retrieve_context to_lower (Some rank) round4 clk t file req = Inl err) \<and>
   (read_graph_file clk t file = Inr (g, t') \<and>
    (\<forall>e \<in> set (entities g).
       sublist (lower to_lower (canonical_entity req)) (lower to_lower (entityType e))
       \<longrightarrow> observations e = [])
    \<longrightarrow> retrieve_context to_lower (Some rank) round4 clk t file req
          = Inr (Message_reply (canonical_entity req) [] ''No memories found.'')) \<and>
   (read_graph_file clk t file = Inr (g, t') \<and>
    candidate_observations to_lower (lower to_lower (canonical_entity req)) (entities g) \<noteq> [] \<and>
    rank (query_thought req)
      (map content
         (candidate_observations to_lower (lower to_lower (canonical_entity req)) (entities g)))
      = Raised msg
    \<longrightarrow> retrieve_context to_lower (Some rank) round4 clk t file req
          = Inr (Error_reply (''Reranking failed: '' @ msg))) \<and>
   (read_graph_file clk t file = Inr (g, t')
    \<longrightarrow> (\<exists>reply. retrieve_context to_lower (Some rank) round4 clk t file req = Inr reply))"
proof -
  have a: "retrieve_context to_lower None round4 clk t file req
     = Inr (Error_reply ''WordLlama engine not loaded.'')"
    by (simp add: retrieve_context_def)
  have e: "retrieve_context to_lower (Some rank) round4 clk t file req = Inl err"
    if "read_graph_file clk t file = Inl err"
    using that by (simp add: retrieve_context_def)
  have b: "retrieve_context to_lower (Some rank) round4 clk t file req
          = Inr (Message_reply (canonical_entity req) [] ''No memories found.'')"
    if "read_graph_file clk t file = Inr (g, t')"
      and "\<forall>e \<in> set (entities g).
       sublist (lower to_lower (canonical_entity req)) (lower to_lower (entityType e))
       \<longrightarrow> observations e = []"
    using that
      candidate_observations_Nil_iff [of to_lower "lower to_lower (canonical_entity req)"
        "entities g"]
    by (simp add: retrieve_context_def)
  have c: "retrieve_context to_lower (Some rank) round4 clk t file req
          = Inr (Error_reply (''Reranking failed: '' @ msg))"
    if "read_graph_file clk t file = Inr (g, t')"
      and "candidate_observations to_lower (lower to_lower (canonical_entity req)) (entities g)
        \<noteq> []"
      and "rank (query_thought req)
        (map content
           (candidate_observations to_lower (lower to_lower (canonical_entity req))
              (entities g)))
        = Raised msg"
    using that by (simp add: retrieve_context_def)
  have d: "\<exists>reply. retrieve_context to_lower (Some rank) round4 clk t file req = Inr reply"
    if "read_graph_file clk t file = Inr (g, t')"
    using that
    by (simp add: retrieve_context_def Let_def split: rank_outcome.split sum.split)
  show ?thesis using a b c d e by blast
qed

theorem retrieve_context_soft_fail_witness:
  "retrieve_context ascii_to_lower (Some failing_engine) Inr example_clock 0
     (save_graph example_graph) city_request
     = Inr (Message_reply ''City'' [] ''No memories found.'') \<and>
   retrieve_context ascii_to_lower (Some failing_engine) Inr example_clock 0
     (save_graph example_graph) person_request
     = Inr (Error_reply ''Reranking failed: model not ready'') \<and>
   retrieve_context ascii_to_lower (Some failing_engine) Inr example_clock 0
     (Raises UnicodeDecodeError) person_request = Inl UnicodeDecodeError"
proof -
  have ld: "read_graph_file example_clock 0 (save_graph example_graph) = Inr (example_graph, 2)"
    by (simp add: save_graph_def graph_json_def entity_json_def relation_json_def
        observation_json_def example_graph_def alice_def bob_def alice_knows_bob_def
        dict_get_default_def dict_get_def creation_time_of_def)
  have none: "\<forall>e \<in> set (entities example_graph).
       sublist (lower ascii_to_lower (canonical_entity city_request))
         (lower ascii_to_lower (entityType e))
       \<longrightarrow> observations e = []"
    by (simp add: example_graph_def alice_def bob_def city_request_def lower_ascii lower_char_def
        flip: str_in_sublist)
  have some: "candidate_observations ascii_to_lower
       (lower ascii_to_lower (canonical_entity person_request)) (entities example_graph) \<noteq> []"
    by (simp add: candidate_observations_def example_graph_def alice_def bob_def
        person_request_def lower_ascii lower_char_def)
  have raised: "failing_engine (query_thought person_request)
      (map content (candidate_observations ascii_to_lower
         (lower ascii_to_lower (canonical_entity person_request))
         (entities example_graph))) = Raised ''model not ready''"
    by (simp add: failing_engine_def)
  have 1: "retrieve_context ascii_to_lower (Some failing_engine) Inr example_clock 0
     (save_graph example_graph) city_request
     = Inr (Message_reply ''City'' [] ''No memories found.'')"
    using retrieve_context_soft_fail [of ascii_to_lower Inr example_clock 0
        "save_graph example_graph" city_request _ failing_engine example_graph 2] ld none
    by (simp add: city_request_def)
  have 2: "retrieve_context ascii_to_lower (Some failing_engine) Inr example_clock 0
     (save_graph example_graph) person_request
     = Inr (Error_reply ''Reranking failed: model not ready'')"
    using retrieve_context_soft_fail [of ascii_to_lower Inr example_clock 0
        "save_graph example_graph" person_request _ failing_engine example_graph 2
        "''model not ready''"] ld some raised
    by simp
  have 3: "retrieve_context ascii_to_lower (Some failing_engine) Inr example_clock 0
     (Raises UnicodeDecodeError) person_request = Inl UnicodeDecodeError"
    using retrieve_context_soft_fail [of ascii_to_lower Inr example_clock 0
        "Raises UnicodeDecodeError" person_request UnicodeDecodeError failing_engine]
    by simp
  show ?thesis using 1 2 3 by simp
qed

text \<open>
  C9 as stated fails: with an engine and a file that holds \<^verbatim>\<open>[]\<close>, in which there is no
  candidate observation, the handler raises \<^verbatim>\<open>AttributeError\<close> in place of answering
  \<^verbatim>\<open>No memories found.\<close>
\<close>

theorem retrieve_context_raises_counterexample:
  "\<forall>to_lower. retrieve_context to_lower (Some failing_engine) Inr example_clock 0
     (Document (JArr [])) city_request = Inl AttributeError"
  by (simp add: retrieve_context_def)

section \<open>Creation: properties\<close>

lemma as_str_Some: "as_str v = Some s \<longleftrightarrow> v = Some (JStr s)"
  by (cases v rule: as_str.cases) auto

lemma in_names_iff: "in_names n names \<longleftrightarrow> (\<exists>s. n = JStr s \<and> s \<in> names)"
  by (cases n) auto

lemma create_entity_step:
  assumes "create_entity ct item (set (map name es), es) = Inr (ex', es')"
  shows "ex' = set (map name es')"
    and "set (map name es) \<subseteq> ex'"
    and "es' = es \<or> (\<exists>e. es' = es @ [e] \<and> name e \<notin> set (map name es))"
  using assms unfolding create_entity_def Let_def
  by (auto simp: as_str_Some in_names_iff split: if_splits option.splits sum.splits)

lemma create_entities_loop_inv:
  assumes "create_entities_loop ct items (set (map name es), es) = Inr (ex', es')"
  shows "ex' = set (map name es')"
    and "set (map name es) \<subseteq> ex'"
    and "distinct (map name es) \<Longrightarrow> distinct (map name es')"
    and "\<exists>new. es' = es @ new"
  using assms
proof (induction items arbitrary: es)
  case Nil
  { case 1 then show ?case by auto }
  { case 2 then show ?case by auto }
  { case 3 then show ?case by auto }
  { case 4 then show ?case by auto }
next
  case (Cons item items)
  { case 1
    then obtain ex1 es1 where
      step: "create_entity ct item (set (map name es), es) = Inr (ex1, es1)"
      and rest: "create_entities_loop ct items (ex1, es1) = Inr (ex', es')"
      by (auto split: sum.splits)
    have s1: "ex1 = set (map name es1)" using create_entity_step(1) [OF step] .
    show ?case using Cons.IH(1) [OF rest [unfolded s1]] . }
  { case 2
    then obtain ex1 es1 where
      step: "create_entity ct item (set (map name es), es) = Inr (ex1, es1)"
      and rest: "create_entities_loop ct items (ex1, es1) = Inr (ex', es')"
      by (auto split: sum.splits)
    have s1: "ex1 = set (map name es1)" using create_entity_step(1) [OF step] .
    have "set (map name es) \<subseteq> ex1" using create_entity_step(2) [OF step] .
    moreover have "ex1 \<subseteq> ex'" using Cons.IH(2) [OF rest [unfolded s1]] s1 by simp
    ultimately show ?case by blast }
  { case 3
    then obtain ex1 es1 where
      step: "create_entity ct item (set (map name es), es) = Inr (ex1, es1)"
      and rest: "create_entities_loop ct items (ex1, es1) = Inr (ex', es')"
      by (auto split: sum.splits)
    have s1: "ex1 = set (map name es1)" using create_entity_step(1) [OF step] .
    have "distinct (map name es1)"
      using create_entity_step(3) [OF step] \<open>distinct (map name es)\<close> by auto
    then show ?case using Cons.IH(3) [OF _ rest [unfolded s1]] by simp }
  { case 4
    then obtain ex1 es1 where
      step: "create_entity ct item (set (map name es), es) = Inr (ex1, es1)"
      and rest: "create_entities_loop ct items (ex1, es1) = Inr (ex', es')"
      by (auto split: sum.splits)
    have s1: "ex1 = set (map name es1)" using create_entity_step(1) [OF step] .
    have "\<exists>new. es1 = es @ new" using create_entity_step(3) [OF step] by auto
    moreover have "\<exists>new. es' = es1 @ new" using Cons.IH(4) [OF rest [unfolded s1]] .
    ultimately show ?case by auto }
qed

lemma create_entity_again:
  assumes "create_entity ct item (set (map name es), es) = Inr (ex1, es1)"
    and "ex1 \<subseteq> X"
  shows "create_entity ct2 item (X, Y) = Inr (X, Y)"
  using assms unfolding create_entity_def Let_def
  by (auto simp: as_str_Some in_names_iff split: if_splits option.splits sum.splits)

lemma create_entities_loop_again:
  assumes "create_entities_loop ct items (set (map name es), es) = Inr (ex', es')"
    and "ex' \<subseteq> X"
  shows "create_entities_loop ct2 items (X, Y) = Inr (X, Y)"
  using assms
proof (induction items arbitrary: es)
  case Nil
  then show ?case by simp
next
  case (Cons item items)
  from Cons.prems(1) obtain ex1 es1 where
    step: "create_entity ct item (set (map name es), es) = Inr (ex1, es1)"
    and rest: "create_entities_loop ct items (ex1, es1) = Inr (ex', es')"
    by (auto split: sum.splits)
  have s1: "ex1 = set (map name es1)" using create_entity_step(1) [OF step] .
  have "ex1 \<subseteq> ex'"
    using create_entities_loop_inv(2) [OF rest [unfolded s1]] s1 by simp
  then have "ex1 \<subseteq> X" using Cons.prems(2) by blast
  then have a: "create_entity ct2 item (X, Y) = Inr (X, Y)"
    using create_entity_again [OF step] by simp
  have b: "create_entities_loop ct2 items (X, Y) = Inr (X, Y)"
    using Cons.IH [OF rest [unfolded s1] Cons.prems(2)] .
  show ?case using a b by simp
qed

lemma create_entity_named:
  assumes "create_entity ct item (ex, es) = Inr (ex1, es1)"
    and "dict_get item ''name'' = JStr x" and "x \<noteq> []"
  shows "x \<in> ex1"
  using assms unfolding create_entity_def Let_def
  by (auto simp: as_str_Some split: if_splits option.splits sum.splits)

lemma create_entities_loop_named:
  assumes "create_entities_loop ct items (set (map name es), es) = Inr (ex', es')"
    and "item \<in> set items" and "dict_get item ''name'' = JStr x" and "x \<noteq> []"
  shows "x \<in> ex'"
  using assms
proof (induction items arbitrary: es)
  case Nil
  then show ?case by simp
next
  case (Cons i items)
  from Cons.prems(1) obtain ex1 es1 where
    step: "create_entity ct i (set (map name es), es) = Inr (ex1, es1)"
    and rest: "create_entities_loop ct items (ex1, es1) = Inr (ex', es')"
    by (auto split: sum.splits)
  have s1: "ex1 = set (map name es1)" using create_entity_step(1) [OF step] .
  have mono: "ex1 \<subseteq> ex'"
    using create_entities_loop_inv(2) [OF rest [unfolded s1]] s1 by simp
  show ?case
  proof (cases "item = i")
    case True
    then have "x \<in> ex1"
      using create_entity_named [OF step] Cons.prems(3,4) by simp
    then show ?thesis using mono by auto
  next
    case False
    then have "item \<in> set items" using Cons.prems(2) by simp
    then show ?thesis using Cons.IH [OF rest [unfolded s1] _ Cons.prems(3,4)] by simp
  qed
qed

lemma distinct_count_one:
  assumes "distinct (map f xs)" and "x \<in> set (map f xs)"
  shows "length [y \<leftarrow> xs. f y = x] = 1"
  using assms
proof (induction xs)
  case Nil
  then show ?case by simp
next
  case (Cons a xs)
  show ?case
  proof (cases "f a = x")
    case True
    then have "x \<notin> set (map f xs)" using Cons.prems(1) by auto
    then have "[y \<leftarrow> xs. f y = x] = []" by (auto simp: filter_empty_conv)
    then show ?thesis using True by simp
  next
    case False
    then show ?thesis using Cons by auto
  qed
qed

lemma create_relation_step:
  assumes "create_relation ct r (set (map triple rs), rs) = (ex', rs')"
  shows "ex' = set (map triple rs')"
    and "set (map triple rs) \<subseteq> ex'"
    and "triple r \<in> ex'"
    and "rs' = rs \<or> (\<exists>x. rs' = rs @ [x] \<and> triple x \<notin> set (map triple rs))"
  using assms unfolding create_relation_def
  by (auto simp: triple_def split: if_splits)

lemma create_relations_loop_inv:
  assumes "create_relations_loop ct req (set (map triple rs), rs) = (ex', rs')"
  shows "ex' = set (map triple rs')"
    and "set (map triple rs) \<subseteq> ex'"
    and "distinct (map triple rs) \<Longrightarrow> distinct (map triple rs')"
    and "\<exists>new. rs' = rs @ new"
    and "set (map triple req) \<subseteq> ex'"
  using assms
proof (induction req arbitrary: rs)
  case Nil
  { case 1 then show ?case by auto }
  { case 2 then show ?case by auto }
  { case 3 then show ?case by auto }
  { case 4 then show ?case by auto }
  { case 5 then show ?case by auto }
next
  case (Cons r req)
  { case 1
    obtain ex1 rs1 where step: "create_relation ct r (set (map triple rs), rs) = (ex1, rs1)"
      by (cases "create_relation ct r (set (map triple rs), rs)")
    have s1: "ex1 = set (map triple rs1)" using create_relation_step(1) [OF step] .
    have rest: "create_relations_loop ct req (set (map triple rs1), rs1) = (ex', rs')"
      using 1 step s1 by simp
    show ?case using Cons.IH(1) [OF rest] . }
  { case 2
    obtain ex1 rs1 where step: "create_relation ct r (set (map triple rs), rs) = (ex1, rs1)"
      by (cases "create_relation ct r (set (map triple rs), rs)")
    have s1: "ex1 = set (map triple rs1)" using create_relation_step(1) [OF step] .
    have rest: "create_relations_loop ct req (set (map triple rs1), rs1) = (ex', rs')"
      using 2 step s1 by simp
    have "set (map triple rs) \<subseteq> ex1" using create_relation_step(2) [OF step] .
    then show ?case using Cons.IH(2) [OF rest] s1 by blast }
  { case 3
    obtain ex1 rs1 where step: "create_relation ct r (set (map triple rs), rs) = (ex1, rs1)"
      by (cases "create_relation ct r (set (map triple rs), rs)")
    have s1: "ex1 = set (map triple rs1)" using create_relation_step(1) [OF step] .
    have rest: "create_relations_loop ct req (set (map triple rs1), rs1) = (ex', rs')"
      using 3 step s1 by simp
    have "distinct (map triple rs1)"
      using create_relation_step(4) [OF step] \<open>distinct (map triple rs)\<close> by auto
    then show ?case using Cons.IH(3) [OF _ rest] by simp }
  { case 4
    obtain ex1 rs1 where step: "create_relation ct r (set (map triple rs), rs) = (ex1, rs1)"
      by (cases "create_relation ct r (set (map triple rs), rs)")
    have s1: "ex1 = set (map triple rs1)" using create_relation_step(1) [OF step] .
    have rest: "create_relations_loop ct req (set (map triple rs1), rs1) = (ex', rs')"
      using 4 step s1 by simp
    have "\<exists>new. rs1 = rs @ new" using create_relation_step(4) [OF step] by auto
    moreover have "\<exists>new. rs' = rs1 @ new" using Cons.IH(4) [OF rest] .
    ultimately show ?case by auto }
  { case 5
    obtain ex1 rs1 where step: "create_relation ct r (set (map triple rs), rs) = (ex1, rs1)"
      by (cases "create_relation ct r (set (map triple rs), rs)")
    have s1: "ex1 = set (map triple rs1)" using create_relation_step(1) [OF step] .
    have rest: "create_relations_loop ct req (set (map triple rs1), rs1) = (ex', rs')"
      using 5 step s1 by simp
    have "triple r \<in> ex1" using create_relation_step(3) [OF step] .
    moreover have "ex1 \<subseteq> ex'" using Cons.IH(2) [OF rest] s1 by simp
    moreover have "set (map triple req) \<subseteq> ex'" using Cons.IH(5) [OF rest] .
    ultimately show ?case by auto }
qed

lemma create_relations_loop_again:
  assumes "set (map triple req) \<subseteq> X"
  shows "create_relations_loop ct req (X, Y) = (X, Y)"
  using assms
  by (induction req) (simp_all add: create_relation_def)

lemma create_entities_props:
  assumes ok: "create_entities ct req g = Inr g1"
  shows "distinct (map name (entities g)) \<Longrightarrow> distinct (map name (entities g1))"
    and "\<exists>new. entities g1 = entities g @ new"
    and "relations g1 = relations g"
    and "create_entities ct2 req g1 = Inr g1"
    and "distinct (map name (entities g)) \<Longrightarrow> item \<in> set req \<Longrightarrow>
         dict_get item ''name'' = JStr x \<Longrightarrow> x \<noteq> [] \<Longrightarrow>
         length [e \<leftarrow> entities g1. name e = x] = 1"
proof -
  from ok obtain ex' es' where
    loop: "create_entities_loop ct req (set (map name (entities g)), entities g) = Inr (ex', es')"
    and g1: "g1 = g\<lparr>entities := es'\<rparr>"
    by (auto simp: create_entities_def split: sum.splits)
  have ex': "ex' = set (map name es')" using create_entities_loop_inv(1) [OF loop] .
  show d: "distinct (map name (entities g1))" if "distinct (map name (entities g))"
    using create_entities_loop_inv(3) [OF loop that] g1 by simp
  show "\<exists>new. entities g1 = entities g @ new"
    using create_entities_loop_inv(4) [OF loop] g1 by simp
  show "relations g1 = relations g" using g1 by simp
  have "create_entities_loop ct2 req (set (map name es'), es') = Inr (set (map name es'), es')"
    using create_entities_loop_again [OF loop, of "set (map name es')" ct2 es'] ex' by simp
  then show "create_entities ct2 req g1 = Inr g1"
    using g1 by (simp add: create_entities_def)
  show "length [e \<leftarrow> entities g1. name e = x] = 1"
    if "distinct (map name (entities g))" "item \<in> set req"
      "dict_get item ''name'' = JStr x" "x \<noteq> []"
  proof -
    have "x \<in> ex'" using create_entities_loop_named [OF loop that(2,3,4)] .
    then have "x \<in> set (map name (entities g1))" using ex' g1 by simp
    then show ?thesis using distinct_count_one [OF d [OF that(1)]] by simp
  qed
qed

lemma create_entities_existing:
  assumes "dict_get item ''name'' = JStr x" and "x \<in> set (map name (entities g))"
  shows "create_entities ct [item] g = Inr g"
  using assms by (simp add: create_entities_def create_entity_def Let_def)

lemma create_relations_props:
  shows "distinct (map triple (relations g)) \<Longrightarrow>
         distinct (map triple (relations (create_relations ct req g)))"
    and "\<exists>new. relations (create_relations ct req g) = relations g @ new"
    and "entities (create_relations ct req g) = entities g"
    and "create_relations ct2 req (create_relations ct req g) = create_relations ct req g"
    and "distinct (map triple (relations g)) \<Longrightarrow> r \<in> set req \<Longrightarrow>
         length [x \<leftarrow> relations (create_relations ct req g). triple x = triple r] = 1"
proof -
  obtain ex' rs' where
    loop: "create_relations_loop ct req (set (map triple (relations g)), relations g) = (ex', rs')"
    by (cases "create_relations_loop ct req (set (map triple (relations g)), relations g)")
  have g2: "create_relations ct req g = g\<lparr>relations := rs'\<rparr>"
    using loop by (simp add: create_relations_def)
  have ex': "ex' = set (map triple rs')" using create_relations_loop_inv(1) [OF loop] .
  have sub: "set (map triple req) \<subseteq> set (map triple rs')"
    using create_relations_loop_inv(5) [OF loop] ex' by simp
  show d: "distinct (map triple (relations (create_relations ct req g)))"
    if "distinct (map triple (relations g))"
    using create_relations_loop_inv(3) [OF loop that] g2 by simp
  show "\<exists>new. relations (create_relations ct req g) = relations g @ new"
    using create_relations_loop_inv(4) [OF loop] g2 by simp
  show "entities (create_relations ct req g) = entities g" using g2 by simp
  show "create_relations ct2 req (create_relations ct req g) = create_relations ct req g"
    using create_relations_loop_again [OF sub, of ct2 rs'] g2
    by (simp add: create_relations_def)
  show "length [x \<leftarrow> relations (create_relations ct req g). triple x = triple r] = 1"
    if "distinct (map triple (relations g))" "r \<in> set req"
  proof -
    have "triple r \<in> set (map triple (relations (create_relations ct req g)))"
      using sub that(2) g2 by auto
    then show ?thesis using distinct_count_one [OF d [OF that(1)]] by simp
  qed
qed

lemma create_relations_existing:
  assumes "triple r \<in> set (map triple (relations g))"
  shows "create_relations ct [r] g = g"
  using assms by (simp add: create_relations_def create_relation_def)

text \<open>
  C4. On a graph with unique entity names and unique relation triples: when
  \<^verbatim>\<open>create_entities\<close> returns, the names are still unique, the entities that existed are
  the same records at the head of the list, the relations are untouched, every item of
  the request with a non-empty string name has exactly one entity, and running the same
  request again changes nothing; an item whose name exists is skipped. After
  \<^verbatim>\<open>create_relations\<close> the triples are still unique, the relations that existed are the
  same records at the head of the list, the entities are untouched, every relation of the
  request has exactly one relation with its triple, and running the same request again
  changes nothing; a relation whose triple exists is skipped.
\<close>

theorem create_preserves_uniqueness:
  assumes "distinct (map name (entities g))" and "distinct (map triple (relations g))"
  shows
    "(create_entities ct req g = Inr g1 \<longrightarrow>
        distinct (map name (entities g1)) \<and> distinct (map triple (relations g1)) \<and>
        (\<exists>new. entities g1 = entities g @ new) \<and> relations g1 = relations g \<and>
        (\<forall>item \<in> set req. \<forall>x. dict_get item ''name'' = JStr x \<and> x \<noteq> []
           \<longrightarrow> length [e \<leftarrow> entities g1. name e = x] = 1) \<and>
        create_entities ct2 req g1 = Inr g1) \<and>
     (\<forall>item x. dict_get item ''name'' = JStr x \<and> x \<in> set (map name (entities g))
        \<longrightarrow> create_entities ct [item] g = Inr g) \<and>
     distinct (map triple (relations (create_relations ct rs g))) \<and>
     distinct (map name (entities (create_relations ct rs g))) \<and>
     (\<exists>new. relations (create_relations ct rs g) = relations g @ new) \<and>
     entities (create_relations ct rs g) = entities g \<and>
     (\<forall>r \<in> set rs. length [x \<leftarrow> relations (create_relations ct rs g). triple x = triple r] = 1) \<and>
     create_relations ct2 rs (create_relations ct rs g) = create_relations ct rs g \<and>
     (\<forall>r. triple r \<in> set (map triple (relations g)) \<longrightarrow> create_relations ct [r] g = g)"
proof -
  have e: "distinct (map name (entities g1)) \<and> distinct (map triple (relations g1)) \<and>
        (\<exists>new. entities g1 = entities g @ new) \<and> relations g1 = relations g \<and>
        (\<forall>item \<in> set req. \<forall>x. dict_get item ''name'' = JStr x \<and> x \<noteq> []
           \<longrightarrow> length [e \<leftarrow> entities g1. name e = x] = 1) \<and>
        create_entities ct2 req g1 = Inr g1"
    if ok: "create_entities ct req g = Inr g1"
    using create_entities_props(1) [OF ok assms(1)] create_entities_props(2,3,4) [OF ok]
      create_entities_props(5) [OF ok assms(1)] assms(2)
    by simp
  have ex: "\<forall>item x. dict_get item ''name'' = JStr x \<and> x \<in> set (map name (entities g))
        \<longrightarrow> create_entities ct [item] g = Inr g"
    using create_entities_existing by blast
  have r1: "distinct (map triple (relations (create_relations ct rs g)))"
    using create_relations_props(1) [OF assms(2)] .
  have r2: "distinct (map name (entities (create_relations ct rs g)))"
    using create_relations_props(3) [of ct rs g] assms(1) by simp
  have r3: "\<exists>new. relations (create_relations ct rs g) = relations g @ new"
    using create_relations_props(2) .
  have r4: "entities (create_relations ct rs g) = entities g"
    using create_relations_props(3) .
  have r5: "\<forall>r \<in> set rs.
      length [x \<leftarrow> relations (create_relations ct rs g). triple x = triple r] = 1"
    using create_relations_props(5) [OF assms(2)] by blast
  have r6: "create_relations ct2 rs (create_relations ct rs g) = create_relations ct rs g"
    using create_relations_props(4) .
  have r7: "\<forall>r. triple r \<in> set (map triple (relations g)) \<longrightarrow> create_relations ct [r] g = g"
    using create_relations_existing by blast
  show ?thesis using e ex r1 r2 r3 r4 r5 r6 r7 by blast
qed

theorem create_preserves_uniqueness_witness:
  "create_entities ''2024-03-03T09:00:00'' [carol_item] example_graph
     = Inr (example_graph\<lparr>entities := [alice, bob, carol]\<rparr>) \<and>
   create_entities ''2024-04-04T09:00:00'' [carol_item]
       (example_graph\<lparr>entities := [alice, bob, carol]\<rparr>)
     = Inr (example_graph\<lparr>entities := [alice, bob, carol]\<rparr>) \<and>
   length [e \<leftarrow> [alice, bob, carol]. name e = ''Carol''] = 1 \<and>
   create_relations ''2024-04-04T09:00:00'' [alice_knows_bob] example_graph = example_graph"
proof -
  have d1: "distinct (map name (entities example_graph))"
    by (simp add: example_graph_def alice_def bob_def)
  have d2: "distinct (map triple (relations example_graph))"
    by (simp add: example_graph_def)
  have c: "create_entities ''2024-03-03T09:00:00'' [carol_item] example_graph
     = Inr (example_graph\<lparr>entities := [alice, bob, carol]\<rparr>)"
    by (simp add: create_entities_def create_entity_def carol_item_def carol_def
        example_graph_def alice_def bob_def dict_get_def dict_get_default_def)
  have n: "dict_get carol_item ''name'' = JStr ''Carol'' \<and> ''Carol'' \<noteq> []"
    by (simp add: carol_item_def dict_get_def)
  have t: "triple alice_knows_bob \<in> set (map triple (relations example_graph))"
    by (simp add: example_graph_def)
  show ?thesis
    using create_preserves_uniqueness [OF d1 d2, of "''2024-03-03T09:00:00''" "[carol_item]"
        "example_graph\<lparr>entities := [alice, bob, carol]\<rparr>" "''2024-04-04T09:00:00''"
        "[alice_knows_bob]"] c n t
    by (simp add: create_relations_existing)
qed

section \<open>\<^verbatim>\<open>add_observations\<close>: properties\<close>

lemma list_ex_content:
  "list_ex (\<lambda>ob. content ob = c) obs \<longleftrightarrow> c \<in> set (map content obs)"
  by (auto simp: list_ex_iff)

lemma add_contents_spec:
  assumes "add_contents ct cs (obs, n) = (obs', n')"
  shows "\<exists>new. obs' = obs @ new \<and> n' = n + length new \<and> (\<forall>ob \<in> set new. timestamp ob = ct)
           \<and> distinct (map content new)
           \<and> set (map content new) = set cs - set (map content obs)"
  using assms
proof (induction cs arbitrary: obs n)
  case Nil
  then show ?case by simp
next
  case (Cons c cs)
  show ?case
  proof (cases "c \<in> set (map content obs)")
    case True
    then have "add_contents ct cs (obs, n) = (obs', n')"
      using Cons.prems by (simp add: list_ex_content)
    from Cons.IH [OF this] obtain new where
      n: "obs' = obs @ new" "n' = n + length new" "\<forall>ob \<in> set new. timestamp ob = ct"
         "distinct (map content new)" "set (map content new) = set cs - set (map content obs)"
      by blast
    have "set (map content new) = set (c # cs) - set (map content obs)"
      using n(5) True by auto
    then show ?thesis using n(1-4) by blast
  next
    case False
    let ?oc = "\<lparr>content = c, timestamp = ct\<rparr>"
    have "add_contents ct cs (obs @ [?oc], Suc n) = (obs', n')"
      using Cons.prems False by (simp add: list_ex_content)
    from Cons.IH [OF this] obtain new where
      n: "obs' = (obs @ [?oc]) @ new" "n' = Suc n + length new"
         "\<forall>ob \<in> set new. timestamp ob = ct" "distinct (map content new)"
         "set (map content new) = set cs - set (map content (obs @ [?oc]))"
      by blast
    have a: "obs' = obs @ (?oc # new)" using n(1) by simp
    have b: "n' = n + length (?oc # new)" using n(2) by simp
    have c: "\<forall>ob \<in> set (?oc # new). timestamp ob = ct" using n(3) by simp
    have d: "distinct (map content (?oc # new))" using n(4,5) by auto
    have e: "set (map content (?oc # new)) = set (c # cs) - set (map content obs)"
      using n(5) False by auto
    show ?thesis using a b c d e by blast
  qed
qed

lemma add_contents_again:
  assumes "set cs \<subseteq> set (map content obs)"
  shows "add_contents ct cs (obs, n) = (obs, n)"
  using assms by (induction cs) (simp_all add: list_ex_content)

lemma filter_content_absent:
  assumes "c \<notin> set (map content obs)"
  shows "[ob \<leftarrow> obs. content ob = c] = []"
  using assms by (auto simp: filter_empty_conv)

lemma count_after_add:
  assumes "distinct (map content new)"
    and "set (map content new) = set cs - set (map content obs)"
    and "c \<in> set cs"
  shows "length [ob \<leftarrow> obs @ new. content ob = c]
         = (if c \<in> set (map content obs) then length [ob \<leftarrow> obs. content ob = c] else 1)"
proof (cases "c \<in> set (map content obs)")
  case True
  then have "c \<notin> set (map content new)" using assms(2) by auto
  then show ?thesis using True filter_content_absent [of c new] by simp
next
  case False
  then have "c \<in> set (map content new)" using assms(2,3) by auto
  then have "length [ob \<leftarrow> new. content ob = c] = 1"
    using distinct_count_one [OF assms(1)] by simp
  then show ?thesis using False filter_content_absent [of c obs] by simp
qed

lemma update_first_length: "length (update_first p f xs) = length xs"
  by (induction xs) simp_all

lemma update_first_nth_iff:
  assumes "i < length xs"
  shows "update_first p f xs ! i
         = (if p (xs ! i) \<and> (\<forall>j<i. \<not> p (xs ! j)) then f (xs ! i) else xs ! i)"
  using assms
proof (induction xs arbitrary: i)
  case Nil
  then show ?case by simp
next
  case (Cons x xs)
  show ?case
  proof (cases i)
    case 0
    then show ?thesis by simp
  next
    case (Suc k)
    have k: "k < length xs" using Cons.prems Suc by simp
    have all: "(\<forall>j<Suc k. \<not> p ((x # xs) ! j)) \<longleftrightarrow> \<not> p x \<and> (\<forall>j<k. \<not> p (xs ! j))"
      by (auto simp: less_Suc_eq_0_disj)
    show ?thesis
    proof (cases "p x")
      case True
      have ne: "\<not> (p ((x # xs) ! Suc k) \<and> (\<forall>j<Suc k. \<not> p ((x # xs) ! j)))"
        using all True by blast
      have lhs: "update_first p f (x # xs) ! Suc k = xs ! k" using True by simp
      show ?thesis unfolding Suc lhs if_not_P [OF ne] by simp
    next
      case False
      have lhs: "update_first p f (x # xs) ! Suc k = update_first p f xs ! k"
        using False by simp
      have c: "p (xs ! k) \<and> (\<forall>j<Suc k. \<not> p ((x # xs) ! j))
               \<longleftrightarrow> p (xs ! k) \<and> (\<forall>j<k. \<not> p (xs ! j))"
        using all False by blast
      show ?thesis unfolding Suc lhs nth_Cons_Suc c using Cons.IH [OF k] .
    qed
  qed
qed

lemma appended_refl: "appended ct {} e e"
  unfolding appended_def by (rule exI [of _ "[]"]) simp

lemma appended_name: "appended ct w e e' \<Longrightarrow> name e' = name e"
  unfolding appended_def by auto

lemma appended_contents:
  assumes "appended ct w e e'"
  shows "set (map content (observations e')) = set (map content (observations e)) \<union> w"
proof -
  from assms obtain new where
    e': "e' = e\<lparr>observations := observations e @ new,
                 last_modified := (if new = [] then last_modified e else ct)\<rparr>"
    and c: "set (map content new) = w - set (map content (observations e))"
    unfolding appended_def by blast
  have "set (map content (observations e'))
      = set (map content (observations e)) \<union> set (map content new)"
    using e' by simp
  also have "\<dots> = set (map content (observations e))
                   \<union> (w - set (map content (observations e)))"
    by (simp only: c)
  also have "\<dots> = set (map content (observations e)) \<union> w" by blast
  finally show ?thesis .
qed

lemma appended_trans:
  assumes "appended ct w1 a b" and "appended ct w2 b c"
  shows "appended ct (w1 \<union> w2) a c"
proof -
  from assms(1) obtain n1 where
    b: "b = a\<lparr>observations := observations a @ n1,
              last_modified := (if n1 = [] then last_modified a else ct)\<rparr>"
    and s1: "\<forall>ob \<in> set n1. timestamp ob = ct" and d1: "distinct (map content n1)"
    and c1: "set (map content n1) = w1 - set (map content (observations a))"
    unfolding appended_def by blast
  from assms(2) obtain n2 where
    c: "c = b\<lparr>observations := observations b @ n2,
              last_modified := (if n2 = [] then last_modified b else ct)\<rparr>"
    and s2: "\<forall>ob \<in> set n2. timestamp ob = ct" and d2: "distinct (map content n2)"
    and c2: "set (map content n2) = w2 - set (map content (observations b))"
    unfolding appended_def by blast
  have ob: "set (map content (observations b))
      = set (map content (observations a)) \<union> set (map content n1)"
    using b by auto
  have e: "c = a\<lparr>observations := observations a @ (n1 @ n2),
              last_modified := (if n1 @ n2 = [] then last_modified a else ct)\<rparr>"
    using b c by simp
  have s: "\<forall>ob \<in> set (n1 @ n2). timestamp ob = ct" using s1 s2 by auto
  have d: "distinct (map content (n1 @ n2))" using d1 d2 c2 ob by auto
  have w: "set (map content (n1 @ n2)) = (w1 \<union> w2) - set (map content (observations a))"
    using c1 c2 ob by auto
  show ?thesis unfolding appended_def using e s d w by blast
qed

lemma add_observation_item_at:
  assumes "add_observation_item ct item (ents, res) = (ents', res')"
  shows "length ents' = length ents"
    and "\<forall>i < length ents.
           appended ct (if first_of_name ents i \<and> name (ents ! i) = entityName item
                        then set (contents item) else {}) (ents ! i) (ents' ! i)"
proof -
  let ?p = "\<lambda>e. name e = entityName item"
  have both: "length ents' = length ents \<and> (\<forall>i < length ents.
           appended ct (if first_of_name ents i \<and> name (ents ! i) = entityName item
                        then set (contents item) else {}) (ents ! i) (ents' ! i))"
  proof (cases "find ?p ents")
    case None
    then have "ents' = ents" using assms by (simp add: add_observation_item_def)
    moreover have "\<not> ?p (ents ! i)" if "i < length ents" for i
      using None that by (auto simp: find_None_iff)
    ultimately show ?thesis by (auto simp: appended_refl)
  next
    case (Some e)
    then obtain k where k: "k < length ents" "?p (ents ! k)" "e = ents ! k"
      "\<forall>j<k. \<not> ?p (ents ! j)"
      unfolding find_Some_iff by blast
    obtain obs' n' where ac: "add_contents ct (contents item) (observations e, 0) = (obs', n')"
      by (cases "add_contents ct (contents item) (observations e, 0)")
    from add_contents_spec [OF ac] obtain new where
      n: "obs' = observations e @ new" "n' = length new" "\<forall>ob \<in> set new. timestamp ob = ct"
         "distinct (map content new)"
         "set (map content new) = set (contents item) - set (map content (observations e))"
      by auto
    let ?f = "\<lambda>x. x\<lparr>observations := observations e @ new,
                      last_modified := (if new = [] then last_modified x else ct)\<rparr>"
    have upd: "ents' = update_first ?p ?f ents"
    proof (cases "new = []")
      case True
      then show ?thesis using assms Some ac n(1,2) by (simp add: add_observation_item_def)
    next
      case False
      then show ?thesis using assms Some ac n(1,2) by (simp add: add_observation_item_def)
    qed
    have len: "length ents' = length ents" using upd by (simp add: update_first_length)
    have at: "appended ct (if first_of_name ents i \<and> name (ents ! i) = entityName item
                        then set (contents item) else {}) (ents ! i) (ents' ! i)"
      if i: "i < length ents" for i
    proof (cases "?p (ents ! i) \<and> (\<forall>j<i. \<not> ?p (ents ! j))")
      case True
      have "i = k"
      proof (rule ccontr)
        assume "i \<noteq> k"
        then consider "i < k" | "k < i" by linarith
        then show False using True k(2,4) by cases auto
      qed
      then have ei: "ents ! i = e" using k(3) by simp
      have fst: "first_of_name ents i" using True by (simp add: first_of_name_def)
      have "ents' ! i = ?f (ents ! i)"
        using update_first_nth_iff [OF i, of ?p ?f] True upd by simp
      then have "appended ct (set (contents item)) (ents ! i) (ents' ! i)"
        unfolding appended_def using n(3,4,5) ei by auto
      then show ?thesis using True fst by simp
    next
      case False
      have same: "ents' ! i = ents ! i"
        using update_first_nth_iff [OF i, of ?p ?f] False upd by simp
      have "\<not> (first_of_name ents i \<and> name (ents ! i) = entityName item)"
        using False by (auto simp: first_of_name_def)
      then have w: "(if first_of_name ents i \<and> name (ents ! i) = entityName item
                     then set (contents item) else {}) = {}"
        by (simp only: if_False)
      show ?thesis by (simp only: w same) (rule appended_refl)
    qed
    show ?thesis using len at by blast
  qed
  show "length ents' = length ents" using both by blast
  show "\<forall>i < length ents.
           appended ct (if first_of_name ents i \<and> name (ents ! i) = entityName item
                        then set (contents item) else {}) (ents ! i) (ents' ! i)"
    using both by blast
qed

lemma same_names_first:
  assumes "length ents' = length ents"
    and "\<forall>i < length ents. name (ents' ! i) = name (ents ! i)"
    and "i < length ents"
  shows "first_of_name ents' i = first_of_name ents i"
  using assms by (auto simp: first_of_name_def)

lemma requested_Cons:
  "requested (item # items) nm
   = (if entityName item = nm then set (contents item) else {}) \<union> requested items nm"
  by (simp add: requested_def)

lemma add_observations_loop_at:
  assumes "add_observations_loop ct req (ents, res) = (ents', res')"
  shows "length ents' = length ents \<and>
         (\<forall>i < length ents.
            appended ct (if first_of_name ents i then requested req (name (ents ! i)) else {})
              (ents ! i) (ents' ! i))"
  using assms
proof (induction req arbitrary: ents res)
  case Nil
  then show ?case by (auto simp: requested_def appended_refl)
next
  case (Cons item items)
  obtain ents1 res1 where s1: "add_observation_item ct item (ents, res) = (ents1, res1)"
    by (cases "add_observation_item ct item (ents, res)")
  have rest: "add_observations_loop ct items (ents1, res1) = (ents', res')"
    using Cons.prems s1 by simp
  note step = add_observation_item_at [OF s1]
  note ih = Cons.IH [OF rest]
  have nm: "\<forall>i < length ents. name (ents1 ! i) = name (ents ! i)"
    using step(2) appended_name by blast
  have len: "length ents' = length ents" using ih step(1) by simp
  have at: "appended ct (if first_of_name ents i
                         then requested (item # items) (name (ents ! i)) else {})
              (ents ! i) (ents' ! i)"
    if i: "i < length ents" for i
  proof -
    have a: "appended ct (if first_of_name ents i \<and> name (ents ! i) = entityName item
                        then set (contents item) else {}) (ents ! i) (ents1 ! i)"
      using step(2) i by blast
    have f: "first_of_name ents1 i = first_of_name ents i"
      using same_names_first [OF step(1) nm i] .
    have b: "appended ct (if first_of_name ents i then requested items (name (ents ! i)) else {})
               (ents1 ! i) (ents' ! i)"
      using ih i step(1) f nm by auto
    have u: "(if first_of_name ents i \<and> name (ents ! i) = entityName item
              then set (contents item) else {})
             \<union> (if first_of_name ents i then requested items (name (ents ! i)) else {})
           = (if first_of_name ents i then requested (item # items) (name (ents ! i)) else {})"
      by (auto simp: requested_Cons)
    show ?thesis using appended_trans [OF a b] u by simp
  qed
  show ?case using len at by blast
qed


lemma same_names_map:
  assumes "length ents' = length ents"
    and "\<forall>i < length ents. name (ents' ! i) = name (ents ! i)"
  shows "map name ents' = map name ents"
  using assms by (simp add: list_eq_iff_nth_eq)

lemma add_observation_item_names:
  assumes "add_observation_item ct item (ents, res) = (ents', res')"
  shows "map name ents' = map name ents"
proof -
  note step = add_observation_item_at [OF assms]
  have "\<forall>i < length ents. name (ents' ! i) = name (ents ! i)"
    using step(2) appended_name by blast
  then show ?thesis using same_names_map [OF step(1)] by blast
qed

lemma add_observations_loop_known:
  "add_observations_loop ct req (ents, res)
   = add_observations_loop ct [it \<leftarrow> req. entityName it \<in> set (map name ents)] (ents, res)"
proof (induction req arbitrary: ents res)
  case Nil
  show ?case by simp
next
  case (Cons item items)
  show ?case
  proof (cases "entityName item \<in> set (map name ents)")
    case False
    then have "\<forall>x \<in> set ents. name x \<noteq> entityName item" by force
    then have "find (\<lambda>e. name e = entityName item) ents = None"
      by (simp add: find_None_iff)
    then have "add_observation_item ct item (ents, res) = (ents, res)"
      by (simp add: add_observation_item_def)
    then show ?thesis using False Cons.IH [of ents res] by simp
  next
    case True
    obtain ents1 res1 where s1: "add_observation_item ct item (ents, res) = (ents1, res1)"
      by (cases "add_observation_item ct item (ents, res)")
    have nm: "map name ents1 = map name ents" using add_observation_item_names [OF s1] .
    show ?thesis using True s1 Cons.IH [of ents1 res1] nm by simp
  qed
qed

lemma update_first_same:
  assumes "find p xs = Some e"
  shows "update_first p (\<lambda>x. x\<lparr>observations := observations e\<rparr>) xs = xs"
  using assms by (induction xs) (auto split: if_splits)

lemma add_observation_item_noop:
  assumes "\<forall>e. find (\<lambda>e. name e = entityName item) ents = Some e
             \<longrightarrow> set (contents item) \<subseteq> set (map content (observations e))"
  shows "add_observation_item ct item (ents, res) = (ents, res)"
proof (cases "find (\<lambda>e. name e = entityName item) ents")
  case None
  then show ?thesis by (simp add: add_observation_item_def)
next
  case (Some e)
  then have "set (contents item) \<subseteq> set (map content (observations e))"
    using assms by blast
  then have "add_contents ct (contents item) (observations e, 0) = (observations e, 0)"
    by (rule add_contents_again)
  then show ?thesis
    using Some update_first_same [OF Some] by (simp add: add_observation_item_def)
qed

lemma add_observations_loop_noop:
  assumes "\<forall>it \<in> set req. \<forall>e. find (\<lambda>e. name e = entityName it) ents = Some e
             \<longrightarrow> set (contents it) \<subseteq> set (map content (observations e))"
  shows "add_observations_loop ct req (ents, res) = (ents, res)"
  using assms by (induction req) (simp_all add: add_observation_item_noop)

lemma requested_contents:
  assumes "it \<in> set req"
  shows "set (contents it) \<subseteq> requested req (entityName it)"
  using assms by (auto simp: requested_def)

lemma add_observations_loop_again:
  assumes "add_observations_loop ct req (ents, res) = (ents', res')"
  shows "add_observations_loop ct2 req (ents', res2) = (ents', res2)"
proof (rule add_observations_loop_noop, intro ballI allI impI)
  fix it e
  assume it: "it \<in> set req"
    and f: "find (\<lambda>e. name e = entityName it) ents' = Some e"
  from add_observations_loop_at [OF assms] have
    len: "length ents' = length ents"
    and at: "\<forall>i < length ents.
            appended ct (if first_of_name ents i then requested req (name (ents ! i)) else {})
              (ents ! i) (ents' ! i)"
    by blast+
  have nm: "\<forall>i < length ents. name (ents' ! i) = name (ents ! i)"
    using at appended_name by blast
  from f obtain k where k: "k < length ents'" "name (ents' ! k) = entityName it"
    "e = ents' ! k" "\<forall>j<k. name (ents' ! j) \<noteq> entityName it"
    unfolding find_Some_iff by blast
  have k': "k < length ents" using k(1) len by simp
  have "first_of_name ents' k" using k(2,4) by (simp add: first_of_name_def)
  then have fk: "first_of_name ents k"
    using same_names_first [OF len nm k'] by simp
  have nk: "name (ents ! k) = entityName it" using nm k' k(2) by simp
  have "appended ct (requested req (entityName it)) (ents ! k) e"
    using at k' fk nk k(3) by auto
  then have "requested req (entityName it) \<subseteq> set (map content (observations e))"
    using appended_contents by blast
  then show "set (contents it) \<subseteq> set (map content (observations e))"
    using requested_contents [OF it] by blast
qed

lemma appended_count:
  assumes "appended ct (set cs) e e'" and "c \<in> set cs"
  shows "length [ob \<leftarrow> observations e'. content ob = c]
         = (if c \<in> set (map content (observations e))
            then length [ob \<leftarrow> observations e. content ob = c] else 1)"
proof -
  from assms(1) obtain new where
    e': "e' = e\<lparr>observations := observations e @ new,
                 last_modified := (if new = [] then last_modified e else ct)\<rparr>"
    and d: "distinct (map content new)"
    and c: "set (map content new) = set cs - set (map content (observations e))"
    unfolding appended_def by blast
  have "observations e' = observations e @ new" using e' by simp
  then show ?thesis using count_after_add [OF d c assms(2)] by simp
qed

text \<open>
  C5 (as amended). For every request the handler returns, the relations and the number
  and order of the entities are kept, and each entity is as before but for observations
  appended: to the first entity of a name, one observation stamped with the current
  time for each content that the items of that name give and the entity does not hold,
  and no other; to any other entity, none. \<^verbatim>\<open>last_modified\<close> becomes the current time
  if an observation was appended to the entity and is kept otherwise. A content given
  for the entity that it held already is held as many times as before, any other
  exactly once. The items whose name is that of no entity can be struck from the request
  without changing the graph or the results; and the same request sent again, at any
  time, changes nothing and reports nothing.
\<close>

theorem add_observations_dedup:
  "relations (fst (add_observations ct req g)) = relations g \<and>
   length (entities (fst (add_observations ct req g))) = length (entities g) \<and>
   (\<forall>i < length (entities g).
      appended ct
        (if first_of_name (entities g) i then requested req (name (entities g ! i)) else {})
        (entities g ! i) (entities (fst (add_observations ct req g)) ! i)) \<and>
   (\<forall>i < length (entities g).
      first_of_name (entities g) i \<longrightarrow>
      (\<forall>c \<in> requested req (name (entities g ! i)).
         length [ob \<leftarrow> observations (entities (fst (add_observations ct req g)) ! i).
                   content ob = c]
         = (if c \<in> set (map content (observations (entities g ! i)))
            then length [ob \<leftarrow> observations (entities g ! i). content ob = c] else 1))) \<and>
   add_observations ct req g
     = add_observations ct [it \<leftarrow> req. entityName it \<in> set (map name (entities g))] g \<and>
   add_observations ct2 req (fst (add_observations ct req g))
     = (fst (add_observations ct req g), [])"
proof -
  obtain ents' res' where
    lp: "add_observations_loop ct req (entities g, []) = (ents', res')"
    by (cases "add_observations_loop ct req (entities g, [])")
  have r: "add_observations ct req g = (g\<lparr>entities := ents'\<rparr>, res')"
    using lp by (simp add: add_observations_def)
  from add_observations_loop_at [OF lp] have
    len: "length ents' = length (entities g)"
    and at: "\<forall>i < length (entities g).
            appended ct
              (if first_of_name (entities g) i then requested req (name (entities g ! i))
               else {})
              (entities g ! i) (ents' ! i)"
    by blast+
  have cnt: "length [ob \<leftarrow> observations (ents' ! i). content ob = c]
         = (if c \<in> set (map content (observations (entities g ! i)))
            then length [ob \<leftarrow> observations (entities g ! i). content ob = c] else 1)"
    if "i < length (entities g)" "first_of_name (entities g) i"
      "c \<in> requested req (name (entities g ! i))" for i c
  proof -
    have "appended ct (requested req (name (entities g ! i))) (entities g ! i) (ents' ! i)"
      using at that(1,2) by auto
    then show ?thesis
      using that(3) unfolding requested_def by (rule appended_count)
  qed
  have known: "add_observations ct req g
     = add_observations ct [it \<leftarrow> req. entityName it \<in> set (map name (entities g))] g"
    using add_observations_loop_known [of ct req "entities g" "[]"]
    by (simp add: add_observations_def)
  have again: "add_observations ct2 req (fst (add_observations ct req g))
     = (fst (add_observations ct req g), [])"
    using add_observations_loop_again [OF lp, of ct2 "[]"] r
    by (simp add: add_observations_def)
  show ?thesis
    using r len at cnt known again by simp
qed

theorem add_observations_dedup_witness:
  "add_observations ''2024-05-05T08:00:00'' [nobody_item, bob_item, bob_more] example_graph
     = (example_graph\<lparr>entities :=
          [alice, bob\<lparr>observations := [\<lparr>content = ''C'', timestamp = ''2024-05-05T08:00:00''\<rparr>,
                                       \<lparr>content = ''D'', timestamp = ''2024-05-05T08:00:00''\<rparr>],
                      last_modified := ''2024-05-05T08:00:00''\<rparr>]\<rparr>,
        [Added 1 ''Bob'', Added 1 ''Bob'']) \<and>
   length [ob \<leftarrow> observations
                  (entities (fst (add_observations ''2024-05-05T08:00:00''
                                    [nobody_item, bob_item, bob_more] example_graph)) ! 1).
             content ob = ''C''] = 1 \<and>
   add_observations ''2024-06-06T08:00:00'' [nobody_item, bob_item, bob_more]
       (fst (add_observations ''2024-05-05T08:00:00'' [nobody_item, bob_item, bob_more]
               example_graph))
     = (fst (add_observations ''2024-05-05T08:00:00'' [nobody_item, bob_item, bob_more]
               example_graph), [])"
proof -
  let ?req = "[nobody_item, bob_item, bob_more]"
  have i: "1 < length (entities example_graph)"
    by (simp add: example_graph_def)
  have f: "first_of_name (entities example_graph) 1"
    by (simp add: first_of_name_def example_graph_def alice_def bob_def)
  have c: "''C'' \<in> requested ?req (name (entities example_graph ! 1))"
    by (simp add: requested_def example_graph_def bob_def nobody_item_def bob_item_def
        bob_more_def)
  have n: "''C'' \<notin> set (map content (observations (entities example_graph ! 1)))"
    by (simp add: example_graph_def bob_def)
  have first: "add_observations ''2024-05-05T08:00:00'' ?req example_graph
     = (example_graph\<lparr>entities :=
          [alice, bob\<lparr>observations := [\<lparr>content = ''C'', timestamp = ''2024-05-05T08:00:00''\<rparr>,
                                       \<lparr>content = ''D'', timestamp = ''2024-05-05T08:00:00''\<rparr>],
                      last_modified := ''2024-05-05T08:00:00''\<rparr>]\<rparr>,
        [Added 1 ''Bob'', Added 1 ''Bob''])"
    by (simp add: add_observations_def add_observation_item_def example_graph_def alice_def
        bob_def nobody_item_def bob_item_def bob_more_def)
  note inst = add_observations_dedup [of "''2024-05-05T08:00:00''" ?req example_graph
      "''2024-06-06T08:00:00''"]
  note cnt = inst [THEN conjunct2, THEN conjunct2, THEN conjunct2, THEN conjunct1,
      rule_format, OF i f c]
  have once: "length [ob \<leftarrow> observations
                  (entities (fst (add_observations ''2024-05-05T08:00:00'' ?req
                                    example_graph)) ! 1).
             content ob = ''C''] = 1"
    using cnt n by (simp only: if_False)
  note again = inst [THEN conjunct2, THEN conjunct2, THEN conjunct2, THEN conjunct2,
      THEN conjunct2]
  show ?thesis using first once again by (intro conjI)
qed

text \<open>
  C5 as stated fails: \<^verbatim>\<open>create_entities\<close> does not deduplicate initial observations, so
  an entity can hold \<^verbatim>\<open>C\<close> twice, and adding \<^verbatim>\<open>C\<close> twice leaves both.
\<close>

theorem add_observations_dedup_counterexample:
  "create_entities ''2024-03-03T09:00:00'' [echo_item] empty_graph
     = Inr \<lparr>entities = [echo], relations = []\<rparr> \<and>
   add_observations ''2024-06-06T08:00:00'' [echo_request]
       (fst (add_observations ''2024-05-05T08:00:00'' [echo_request]
               \<lparr>entities = [echo], relations = []\<rparr>))
     = (\<lparr>entities = [echo], relations = []\<rparr>, []) \<and>
   length [ob \<leftarrow> observations echo. content ob = ''C''] = 2"
  by (simp add: create_entities_def create_entity_def echo_item_def echo_def empty_graph_def
      dict_get_def dict_get_default_def add_observations_def add_observation_item_def
      echo_request_def)

section \<open>\<^verbatim>\<open>delete_observations\<close>: properties\<close>

lemma keep_observations_list:
  "keep_observations (JArr xs) obs = Inr [ob \<leftarrow> obs. JStr (content ob) \<notin> set xs]"
  by (induction obs) simp_all

lemma update_first_nth:
  assumes "i < length xs" and "\<not> p (xs ! i)"
  shows "update_first p f xs ! i = xs ! i"
  using assms
proof (induction xs arbitrary: i)
  case Nil
  then show ?case by simp
next
  case (Cons x xs)
  then show ?case by (cases i) auto
qed

lemma update_first_names:
  assumes "\<And>x. name (f x) = name x"
  shows "map name (update_first p f xs) = map name xs"
  using assms by (induction xs) simp_all

lemma delete_observation_item_frame:
  assumes "delete_observation_item clk item (ents, t) = Inr (ents', t')"
  shows "map name ents' = map name ents"
    and "i < length ents \<Longrightarrow> dict_get item ''entityName'' \<noteq> JStr (name (ents ! i))
         \<Longrightarrow> ents' ! i = ents ! i"
proof -
  let ?p = "\<lambda>e. JStr (name e) = dict_get item ''entityName''"
  show "map name ents' = map name ents"
    using assms
    by (auto simp: delete_observation_item_def update_first_names
        split: option.splits sum.splits)
  show "ents' ! i = ents ! i"
    if "i < length ents" "dict_get item ''entityName'' \<noteq> JStr (name (ents ! i))"
  proof -
    have "\<not> ?p (ents ! i)" using that(2) by auto
    then show ?thesis
      using assms that(1) update_first_nth [of i ents ?p]
      by (auto simp: delete_observation_item_def split: option.splits sum.splits)
  qed
qed

lemma delete_observations_loop_frame:
  assumes "delete_observations_loop clk req (ents, t) = Inr (ents', t')"
  shows "map name ents' = map name ents"
    and "i < length ents \<Longrightarrow>
         \<forall>item \<in> set req. dict_get item ''entityName'' \<noteq> JStr (name (ents ! i))
         \<Longrightarrow> ents' ! i = ents ! i"
  using assms
proof (induction req arbitrary: ents t)
  case Nil
  { case 1 then show ?case by auto }
  { case 2 then show ?case by auto }
next
  case (Cons item req)
  { case 1
    then obtain ents1 t1 where
      step: "delete_observation_item clk item (ents, t) = Inr (ents1, t1)"
      and rest: "delete_observations_loop clk req (ents1, t1) = Inr (ents', t')"
      by (auto split: sum.splits)
    show ?case
      using Cons.IH(1) [OF rest] delete_observation_item_frame(1) [OF step] by simp }
  { case 2
    from \<open>delete_observations_loop clk (item # req) (ents, t) = Inr (ents', t')\<close>
    obtain ents1 t1 where
      step: "delete_observation_item clk item (ents, t) = Inr (ents1, t1)"
      and rest: "delete_observations_loop clk req (ents1, t1) = Inr (ents', t')"
      by (auto split: sum.splits)
    have nm: "map name ents1 = map name ents"
      using delete_observation_item_frame(1) [OF step] .
    then have len: "length ents1 = length ents" using map_eq_imp_length_eq by blast
    have same: "ents1 ! i = ents ! i"
      using delete_observation_item_frame(2) [OF step \<open>i < length ents\<close>] 2(2) by simp
    have i1: "i < length ents1" using len \<open>i < length ents\<close> by simp
    have "\<forall>it \<in> set req. dict_get it ''entityName'' \<noteq> JStr (name (ents1 ! i))"
      using 2(2) same by simp
    then have "ents' ! i = ents1 ! i" using Cons.IH(2) [OF i1 _ rest] by simp
    then show ?case using same by simp }
qed

lemma erased_name: "erased clk t t' gone e e' \<Longrightarrow> name e' = name e"
  unfolding erased_def by auto

lemma erased_trans:
  assumes ab: "if T1 then erased clk t t1 D1 a b else b = a"
    and bc: "if T2 then erased clk t1 t2 D2 b c else c = b"
    and le: "t \<le> t1" "t1 \<le> t2"
  shows "if T1 \<or> T2 then erased clk t t2 (\<lambda>x. T1 \<and> D1 x \<or> T2 \<and> D2 x) a c else c = a"
proof (cases T1; cases T2)
  assume T: T1 T2
  from ab T obtain k1 where
    b: "b = a\<lparr>observations := [ob \<leftarrow> observations a. \<not> D1 (content ob)],
              last_modified := clk k1\<rparr>"
    unfolding erased_def by auto
  from bc T obtain k2 where k2: "t1 \<le> k2" "k2 < t2"
    and c: "c = b\<lparr>observations := [ob \<leftarrow> observations b. \<not> D2 (content ob)],
              last_modified := clk k2\<rparr>"
    unfolding erased_def by auto
  have f: "[ob \<leftarrow> [ob \<leftarrow> observations a. \<not> D1 (content ob)]. \<not> D2 (content ob)]
      = [ob \<leftarrow> observations a. \<not> (D1 (content ob) \<or> D2 (content ob))]"
    by (induction "observations a") auto
  have d: "(\<lambda>x. T1 \<and> D1 x \<or> T2 \<and> D2 x) = (\<lambda>x. D1 x \<or> D2 x)" using T by simp
  have "c = a\<lparr>observations := [ob \<leftarrow> observations a. \<not> (D1 (content ob) \<or> D2 (content ob))],
              last_modified := clk k2\<rparr>"
    using b c f by simp
  moreover have "t \<le> k2" using le(1) k2(1) by simp
  ultimately have "erased clk t t2 (\<lambda>x. D1 x \<or> D2 x) a c"
    unfolding erased_def using k2(2) by blast
  then show ?thesis using T d by simp
next
  assume T: T1 "\<not> T2"
  from ab T obtain k1 where k1: "t \<le> k1" "k1 < t1"
    and b: "b = a\<lparr>observations := [ob \<leftarrow> observations a. \<not> D1 (content ob)],
              last_modified := clk k1\<rparr>"
    unfolding erased_def by auto
  have c: "c = b" using bc T by simp
  have d: "(\<lambda>x. T1 \<and> D1 x \<or> T2 \<and> D2 x) = D1" using T by simp
  have "k1 < t2" using k1(2) le(2) by simp
  then have "erased clk t t2 D1 a c"
    unfolding erased_def using k1(1) b c by blast
  then show ?thesis using T d by simp
next
  assume T: "\<not> T1" T2
  have b: "b = a" using ab T by simp
  from bc T obtain k2 where k2: "t1 \<le> k2" "k2 < t2"
    and c: "c = b\<lparr>observations := [ob \<leftarrow> observations b. \<not> D2 (content ob)],
              last_modified := clk k2\<rparr>"
    unfolding erased_def by auto
  have d: "(\<lambda>x. T1 \<and> D1 x \<or> T2 \<and> D2 x) = D2" using T by simp
  have "t \<le> k2" using le(1) k2(1) by simp
  then have "erased clk t t2 D2 a c"
    unfolding erased_def using k2(2) b c by blast
  then show ?thesis using T d by simp
next
  assume T: "\<not> T1" "\<not> T2"
  then show ?thesis using ab bc by simp
qed

lemma first_named_iff:
  "JStr (name (ents ! i)) = v \<and> (\<forall>j<i. JStr (name (ents ! j)) \<noteq> v)
   \<longleftrightarrow> first_of_name ents i \<and> v = JStr (name (ents ! i))"
  by (auto simp: first_of_name_def)

lemma delete_observation_item_at:
  assumes "dict_get_default item ''observations'' (JArr []) = JArr xs"
  shows "\<exists>ents' t'. delete_observation_item clk item (ents, t) = Inr (ents', t')
           \<and> t' = (if \<exists>e \<in> set ents. names_entity item e then Suc t else t)
           \<and> length ents' = length ents
           \<and> (\<forall>i < length ents.
                if first_of_name ents i \<and> names_entity item (ents ! i)
                then erased clk t t' (listed item) (ents ! i) (ents' ! i)
                else ents' ! i = ents ! i)"
proof (cases "find (\<lambda>e. JStr (name e) = dict_get item ''entityName'') ents")
  case None
  then have no: "\<forall>e \<in> set ents. \<not> names_entity item e"
    by (auto simp: find_None_iff names_entity_def)
  have r: "delete_observation_item clk item (ents, t) = Inr (ents, t)"
    using None by (simp add: delete_observation_item_def)
  have "\<not> names_entity item (ents ! i)" if "i < length ents" for i
    using no that by simp
  then show ?thesis using r no by auto
next
  case (Some e)
  let ?p = "\<lambda>e. JStr (name e) = dict_get item ''entityName''"
  let ?f = "\<lambda>x. x\<lparr>observations := [ob \<leftarrow> observations e. JStr (content ob) \<notin> set xs],
                   last_modified := clk t\<rparr>"
  from Some obtain k where k: "k < length ents" "?p (ents ! k)" "e = ents ! k"
    "\<forall>j<k. \<not> ?p (ents ! j)"
    unfolding find_Some_iff by blast
  have "ents ! k \<in> set ents" using k(1) by simp
  moreover have "names_entity item (ents ! k)" using k(2) by (simp add: names_entity_def)
  ultimately have yes: "\<exists>e \<in> set ents. names_entity item e" by blast
  have r: "delete_observation_item clk item (ents, t) = Inr (update_first ?p ?f ents, Suc t)"
    using Some assms by (simp add: delete_observation_item_def keep_observations_list)
  have l: "listed item c \<longleftrightarrow> JStr c \<in> set xs" for c
    using assms by (simp add: listed_def)
  have at: "if first_of_name ents i \<and> names_entity item (ents ! i)
            then erased clk t (Suc t) (listed item) (ents ! i) (update_first ?p ?f ents ! i)
            else update_first ?p ?f ents ! i = ents ! i"
    if i: "i < length ents" for i
  proof (cases "?p (ents ! i) \<and> (\<forall>j<i. \<not> ?p (ents ! j))")
    case True
    have "i = k"
    proof (rule ccontr)
      assume "i \<noteq> k"
      then consider "i < k" | "k < i" by linarith
      then show False using True k(2,4) by cases auto
    qed
    then have ei: "ents ! i = e" using k(3) by simp
    have fn: "first_of_name ents i \<and> names_entity item (ents ! i)"
      using True first_named_iff [of ents i "dict_get item ''entityName''"]
      by (simp add: names_entity_def)
    have "update_first ?p ?f ents ! i = ?f (ents ! i)"
      using update_first_nth_iff [OF i, of ?p ?f] True by simp
    then have "erased clk t (Suc t) (listed item) (ents ! i) (update_first ?p ?f ents ! i)"
      unfolding erased_def using ei l by auto
    then show ?thesis using fn by simp
  next
    case False
    have same: "update_first ?p ?f ents ! i = ents ! i"
      using update_first_nth_iff [OF i, of ?p ?f] False by simp
    have n: "\<not> (first_of_name ents i \<and> names_entity item (ents ! i))"
      using False first_named_iff [of ents i "dict_get item ''entityName''"]
      by (auto simp: names_entity_def)
    show ?thesis unfolding if_not_P [OF n] using same .
  qed
  show ?thesis
    using r yes at by (simp add: update_first_length)
qed


lemma names_entity_cong: "name e' = name e \<Longrightarrow> names_entity item e' = names_entity item e"
  by (simp add: names_entity_def)

lemma names_entity_set:
  "(\<exists>e \<in> set ents. names_entity item e)
   \<longleftrightarrow> dict_get item ''entityName'' \<in> JStr ` set (map name ents)"
  by (auto simp: names_entity_def)

lemma delete_observations_loop_at:
  assumes "\<forall>it \<in> set req. \<exists>xs. dict_get_default it ''observations'' (JArr []) = JArr xs"
  shows "\<exists>ents' t'. delete_observations_loop clk req (ents, t) = Inr (ents', t')
           \<and> t' = t + length [it \<leftarrow> req. \<exists>e \<in> set ents. names_entity it e]
           \<and> length ents' = length ents
           \<and> (\<forall>i < length ents.
                if first_of_name ents i \<and> (\<exists>it \<in> set req. names_entity it (ents ! i))
                then erased clk t t'
                       (\<lambda>c. \<exists>it \<in> set req. names_entity it (ents ! i) \<and> listed it c)
                       (ents ! i) (ents' ! i)
                else ents' ! i = ents ! i)"
  using assms
proof (induction req arbitrary: ents t)
  case Nil
  show ?case by simp
next
  case (Cons item items)
  from Cons.prems obtain xs where
    xs: "dict_get_default item ''observations'' (JArr []) = JArr xs"
    by auto
  from delete_observation_item_at [OF xs, of clk ents t] obtain ents1 t1 where
    step: "delete_observation_item clk item (ents, t) = Inr (ents1, t1)"
    and t1: "t1 = (if \<exists>e \<in> set ents. names_entity item e then Suc t else t)"
    and len1: "length ents1 = length ents"
    and at1: "\<forall>i < length ents.
                if first_of_name ents i \<and> names_entity item (ents ! i)
                then erased clk t t1 (listed item) (ents ! i) (ents1 ! i)
                else ents1 ! i = ents ! i"
    by blast
  have rest: "\<forall>it \<in> set items. \<exists>xs. dict_get_default it ''observations'' (JArr []) = JArr xs"
    using Cons.prems by simp
  from Cons.IH [OF rest, of ents1 t1] obtain ents' t' where
    loop: "delete_observations_loop clk items (ents1, t1) = Inr (ents', t')"
    and t': "t' = t1 + length [it \<leftarrow> items. \<exists>e \<in> set ents1. names_entity it e]"
    and len: "length ents' = length ents1"
    and at2: "\<forall>i < length ents1.
                if first_of_name ents1 i \<and> (\<exists>it \<in> set items. names_entity it (ents1 ! i))
                then erased clk t1 t'
                       (\<lambda>c. \<exists>it \<in> set items. names_entity it (ents1 ! i) \<and> listed it c)
                       (ents1 ! i) (ents' ! i)
                else ents' ! i = ents1 ! i"
    by blast
  have nm: "\<forall>i < length ents. name (ents1 ! i) = name (ents ! i)"
  proof (intro allI impI)
    fix i assume "i < length ents"
    then have "if first_of_name ents i \<and> names_entity item (ents ! i)
                then erased clk t t1 (listed item) (ents ! i) (ents1 ! i)
                else ents1 ! i = ents ! i"
      using at1 by blast
    then show "name (ents1 ! i) = name (ents ! i)"
      by (auto dest: erased_name split: if_splits)
  qed
  have names: "map name ents1 = map name ents"
    using same_names_map [OF len1 nm] .
  have ex: "(\<exists>e \<in> set ents1. names_entity it e) \<longleftrightarrow> (\<exists>e \<in> set ents. names_entity it e)"
    for it
    unfolding names_entity_set names ..
  have whole: "delete_observations_loop clk (item # items) (ents, t) = Inr (ents', t')"
    using step loop by simp
  have le1: "t \<le> t1" using t1 by simp
  have le2: "t1 \<le> t'" using t' by simp
  have time: "t' = t + length [it \<leftarrow> item # items. \<exists>e \<in> set ents. names_entity it e]"
    using t1 t' ex by simp
  have at: "if first_of_name ents i \<and> (\<exists>it \<in> set (item # items). names_entity it (ents ! i))
            then erased clk t t'
                   (\<lambda>c. \<exists>it \<in> set (item # items). names_entity it (ents ! i) \<and> listed it c)
                   (ents ! i) (ents' ! i)
            else ents' ! i = ents ! i"
    if i: "i < length ents" for i
  proof -
    let ?T1 = "first_of_name ents i \<and> names_entity item (ents ! i)"
    let ?T2 = "first_of_name ents i \<and> (\<exists>it \<in> set items. names_entity it (ents ! i))"
    let ?D2 = "\<lambda>c. \<exists>it \<in> set items. names_entity it (ents ! i) \<and> listed it c"
    have a: "if ?T1 then erased clk t t1 (listed item) (ents ! i) (ents1 ! i)
             else ents1 ! i = ents ! i"
      using at1 i by blast
    have f: "first_of_name ents1 i = first_of_name ents i"
      using same_names_first [OF len1 nm i] .
    have n: "names_entity it (ents1 ! i) = names_entity it (ents ! i)" for it
      using names_entity_cong nm i by blast
    have "if first_of_name ents1 i \<and> (\<exists>it \<in> set items. names_entity it (ents1 ! i))
                then erased clk t1 t'
                       (\<lambda>c. \<exists>it \<in> set items. names_entity it (ents1 ! i) \<and> listed it c)
                       (ents1 ! i) (ents' ! i)
                else ents' ! i = ents1 ! i"
      using at2 i len1 by simp
    then have b: "if ?T2 then erased clk t1 t' ?D2 (ents1 ! i) (ents' ! i)
                  else ents' ! i = ents1 ! i"
      unfolding f n .
    note tr = erased_trans [OF a b le1 le2]
    have T: "?T1 \<or> ?T2
        \<longleftrightarrow> first_of_name ents i \<and> (\<exists>it \<in> set (item # items). names_entity it (ents ! i))"
      by auto
    have D: "(\<lambda>x. ?T1 \<and> listed item x \<or> ?T2 \<and> ?D2 x)
        = (\<lambda>c. \<exists>it \<in> set (item # items). names_entity it (ents ! i) \<and> listed it c)"
      if "first_of_name ents i"
      using that by (auto simp: fun_eq_iff)
    show ?thesis
    proof (cases "first_of_name ents i")
      case True
      show ?thesis using tr unfolding T D [OF True] .
    next
      case False
      then show ?thesis using tr by simp
    qed
  qed
  have len': "length ents' = length ents" using len len1 by simp
  have at': "\<forall>i < length ents.
            if first_of_name ents i \<and> (\<exists>it \<in> set (item # items). names_entity it (ents ! i))
            then erased clk t t'
                   (\<lambda>c. \<exists>it \<in> set (item # items). names_entity it (ents ! i) \<and> listed it c)
                   (ents ! i) (ents' ! i)
            else ents' ! i = ents ! i"
    using at by blast
  show ?case using whole time len' at' by blast
qed

text \<open>
  C6. For every request whose items list their contents (the \<^verbatim>\<open>observations\<close> of each
  item is a list, or is missing), the handler returns; the clock is read once for each
  item that names an entity; the relations and the number and order of the entities are
  kept; the first entity of a name that an item names loses exactly the observations
  whose content is listed by an item naming it, and gets as \<^verbatim>\<open>last_modified\<close> a reading
  of the clock taken during the call, whether or not an observation was removed; and
  every other entity is unchanged. Whatever the request, when the handler returns, the
  entities keep their names and positions, the relations are untouched, and an entity
  that no item names is unchanged.
\<close>

theorem delete_observations_touch:
  "((\<forall>it \<in> set req. \<exists>xs. dict_get_default it ''observations'' (JArr []) = JArr xs)
    \<longrightarrow> (\<exists>g' t'. delete_observations clk t req g = Inr (g', t')
          \<and> t' = t + length [it \<leftarrow> req. \<exists>e \<in> set (entities g). names_entity it e]
          \<and> relations g' = relations g
          \<and> length (entities g') = length (entities g)
          \<and> (\<forall>i < length (entities g).
                if first_of_name (entities g) i
                   \<and> (\<exists>it \<in> set req. names_entity it (entities g ! i))
                then erased clk t t'
                       (\<lambda>c. \<exists>it \<in> set req. names_entity it (entities g ! i) \<and> listed it c)
                       (entities g ! i) (entities g' ! i)
                else entities g' ! i = entities g ! i))) \<and>
   (delete_observations clk t req g = Inr (g1, t1)
    \<longrightarrow> map name (entities g1) = map name (entities g) \<and> relations g1 = relations g
        \<and> (\<forall>i < length (entities g).
              (\<forall>it \<in> set req. \<not> names_entity it (entities g ! i))
              \<longrightarrow> entities g1 ! i = entities g ! i))"
proof -
  have a: "\<exists>g' t'. delete_observations clk t req g = Inr (g', t')
          \<and> t' = t + length [it \<leftarrow> req. \<exists>e \<in> set (entities g). names_entity it e]
          \<and> relations g' = relations g
          \<and> length (entities g') = length (entities g)
          \<and> (\<forall>i < length (entities g).
                if first_of_name (entities g) i
                   \<and> (\<exists>it \<in> set req. names_entity it (entities g ! i))
                then erased clk t t'
                       (\<lambda>c. \<exists>it \<in> set req. names_entity it (entities g ! i) \<and> listed it c)
                       (entities g ! i) (entities g' ! i)
                else entities g' ! i = entities g ! i)"
    if h: "\<forall>it \<in> set req. \<exists>xs. dict_get_default it ''observations'' (JArr []) = JArr xs"
  proof -
    from delete_observations_loop_at [OF h, of clk "entities g" t] obtain ents' t' where
      loop: "delete_observations_loop clk req (entities g, t) = Inr (ents', t')"
      and rest: "t' = t + length [it \<leftarrow> req. \<exists>e \<in> set (entities g). names_entity it e]"
        "length ents' = length (entities g)"
        "\<forall>i < length (entities g).
                if first_of_name (entities g) i
                   \<and> (\<exists>it \<in> set req. names_entity it (entities g ! i))
                then erased clk t t'
                       (\<lambda>c. \<exists>it \<in> set req. names_entity it (entities g ! i) \<and> listed it c)
                       (entities g ! i) (ents' ! i)
                else ents' ! i = entities g ! i"
      by blast
    have r: "delete_observations clk t req g = Inr (g\<lparr>entities := ents'\<rparr>, t')"
      using loop by (simp add: delete_observations_def)
    have e: "entities (g\<lparr>entities := ents'\<rparr>) = ents'" by simp
    have 2: "relations (g\<lparr>entities := ents'\<rparr>) = relations g" by simp
    have 3: "length (entities (g\<lparr>entities := ents'\<rparr>)) = length (entities g)"
      unfolding e using rest(2) .
    have 4: "\<forall>i < length (entities g).
                if first_of_name (entities g) i
                   \<and> (\<exists>it \<in> set req. names_entity it (entities g ! i))
                then erased clk t t'
                       (\<lambda>c. \<exists>it \<in> set req. names_entity it (entities g ! i) \<and> listed it c)
                       (entities g ! i) (entities (g\<lparr>entities := ents'\<rparr>) ! i)
                else entities (g\<lparr>entities := ents'\<rparr>) ! i = entities g ! i"
      unfolding e using rest(3) .
    show ?thesis using r rest(1) 2 3 4 by blast
  qed
  have c: "map name (entities g1) = map name (entities g) \<and> relations g1 = relations g
        \<and> (\<forall>i < length (entities g).
              (\<forall>it \<in> set req. \<not> names_entity it (entities g ! i))
              \<longrightarrow> entities g1 ! i = entities g ! i)"
    if ok: "delete_observations clk t req g = Inr (g1, t1)"
  proof -
    from ok obtain ents' where
      loop: "delete_observations_loop clk req (entities g, t) = Inr (ents', t1)"
      and g': "g1 = g\<lparr>entities := ents'\<rparr>"
      by (auto simp: delete_observations_def split: sum.splits)
    show ?thesis
      using delete_observations_loop_frame [OF loop] g' by (simp add: names_entity_def)
  qed
  show ?thesis using a c by blast
qed

theorem delete_observations_touch_witness:
  "delete_observations example_clock 0 [miss_item] example_graph
     = Inr (example_graph\<lparr>entities := [alice\<lparr>last_modified := ''2024-02-02T00:00:00.''\<rparr>, bob]\<rparr>,
            1) \<and>
   delete_observations example_clock 0 [miss_item, tea_item] example_graph
     = Inr (example_graph\<lparr>entities :=
              [alice\<lparr>observations := [], last_modified := ''2024-02-02T00:00:00.0''\<rparr>, bob]\<rparr>,
            2) \<and>
   (\<exists>g' t'. delete_observations example_clock 0 [miss_item, tea_item] example_graph
              = Inr (g', t')
      \<and> erased example_clock 0 t'
           (\<lambda>c. \<exists>it \<in> set [miss_item, tea_item].
                   names_entity it (entities example_graph ! 0) \<and> listed it c)
           (entities example_graph ! 0) (entities g' ! 0))"
proof -
  let ?req = "[miss_item, tea_item]"
  have h: "\<forall>it \<in> set ?req. \<exists>xs. dict_get_default it ''observations'' (JArr []) = JArr xs"
    by (simp add: miss_item_def tea_item_def dict_get_default_def)
  have i: "0 < length (entities example_graph)"
    by (simp add: example_graph_def)
  have f: "first_of_name (entities example_graph) 0"
    by (simp add: first_of_name_def)
  have m: "miss_item \<in> set ?req" by simp
  have nm: "names_entity miss_item (entities example_graph ! 0)"
    by (simp add: names_entity_def miss_item_def dict_get_def example_graph_def alice_def)
  have n: "\<exists>it \<in> set ?req. names_entity it (entities example_graph ! 0)"
    using m nm by blast
  have 1: "delete_observations example_clock 0 [miss_item] example_graph
     = Inr (example_graph\<lparr>entities := [alice\<lparr>last_modified := ''2024-02-02T00:00:00.''\<rparr>, bob]\<rparr>,
            1)"
    by (simp add: delete_observations_def delete_observation_item_def example_graph_def
        alice_def bob_def miss_item_def dict_get_def dict_get_default_def example_clock_def)
  have 2: "delete_observations example_clock 0 ?req example_graph
     = Inr (example_graph\<lparr>entities :=
              [alice\<lparr>observations := [], last_modified := ''2024-02-02T00:00:00.0''\<rparr>, bob]\<rparr>,
            2)"
    by (simp add: delete_observations_def delete_observation_item_def example_graph_def
        alice_def bob_def miss_item_def tea_item_def dict_get_def dict_get_default_def
        example_clock_def)
  from delete_observations_touch [of ?req example_clock 0 example_graph] h
  obtain g' t' where r: "delete_observations example_clock 0 ?req example_graph = Inr (g', t')"
    and at: "\<forall>i < length (entities example_graph).
                if first_of_name (entities example_graph) i
                   \<and> (\<exists>it \<in> set ?req. names_entity it (entities example_graph ! i))
                then erased example_clock 0 t'
                       (\<lambda>c. \<exists>it \<in> set ?req.
                              names_entity it (entities example_graph ! i) \<and> listed it c)
                       (entities example_graph ! i) (entities g' ! i)
                else entities g' ! i = entities example_graph ! i"
    by blast
  have "if first_of_name (entities example_graph) 0
                   \<and> (\<exists>it \<in> set ?req. names_entity it (entities example_graph ! 0))
                then erased example_clock 0 t'
                       (\<lambda>c. \<exists>it \<in> set ?req.
                              names_entity it (entities example_graph ! 0) \<and> listed it c)
                       (entities example_graph ! 0) (entities g' ! 0)
                else entities g' ! 0 = entities example_graph ! 0"
    using at i by blast
  then have e: "erased example_clock 0 t'
                       (\<lambda>c. \<exists>it \<in> set ?req.
                              names_entity it (entities example_graph ! 0) \<and> listed it c)
                       (entities example_graph ! 0) (entities g' ! 0)"
    using f n by (simp only: simp_thms if_True)
  have 3: "\<exists>g' t'. delete_observations example_clock 0 ?req example_graph = Inr (g', t')
      \<and> erased example_clock 0 t'
           (\<lambda>c. \<exists>it \<in> set ?req.
                   names_entity it (entities example_graph ! 0) \<and> listed it c)
           (entities example_graph ! 0) (entities g' ! 0)"
    using r e by blast
  show ?thesis using 1 2 3 by blast
qed

section \<open>Load-time backfill: properties\<close>


lemma load_observation_str:
  assumes "load_observation ct stored = Inr ob" and "as_str (Some ct) = None"
  shows "\<exists>d. stored = JObj d"
  using assms by (cases stored) auto










end
